theory Spec2Isabelle
  imports Main "HOL-Library.Sublist"
begin

section \<open>The asset importer: scripts/import-game-files.py\<close>

text \<open>
  The script opens a zip archive, rewrites the stored name of every entry
  (backslash to forward slash) and hands the entry to \<^verbatim>\<open>ZipFile.extract\<close>;
  \<^verbatim>\<open>main\<close> checks its argument, extracts one or two archives and runs an indexer.

  The file system, the zip reader and the path functions belong to the Python
  runtime (CPython 3.11, POSIX host). They are modelled here as far as
  \<^verbatim>\<open>extract_zip\<close> and \<^verbatim>\<open>main\<close> use them: a file system without symbolic links,
  of the permission bits the permission to read a file only, and no failure of
  the device (a full disk).
\<close>

subsection \<open>File system\<close>

text \<open>
  A location is the list of the components of an absolute, normalised path
  (\<open>[]\<close> is the root directory). A file system maps locations to nodes.
\<close>

type_synonym path = "string list"

datatype node = Dir | File string

type_synonym fs = "path \<Rightarrow> node option"

datatype error =
    FileNotFoundError
  | NotADirectoryError
  | IsADirectoryError
  | FileExistsError
  | PermissionError
  | BadZipFile

definition lookup :: "fs \<Rightarrow> path \<Rightarrow> node option" where
  "lookup s p = (if p = [] then Some Dir else s p)"

definition path_exists :: "fs \<Rightarrow> path \<Rightarrow> bool" where
  "path_exists s p = (lookup s p \<noteq> None)"

definition isdir :: "fs \<Rightarrow> path \<Rightarrow> bool" where
  "isdir s p = (lookup s p = Some Dir)"

definition isfile :: "fs \<Rightarrow> path \<Rightarrow> bool" where
  "isfile s p = (case lookup s p of Some (File b) \<Rightarrow> True | _ \<Rightarrow> False)"

text \<open>
  The error a system call reports when it cannot reach the directory that is to
  hold the last component of its path: a missing directory, or a file in its place.
\<close>

definition parent_error :: "fs \<Rightarrow> path \<Rightarrow> error option" where
  "parent_error s p =
     (case lookup s (butlast p) of
        None \<Rightarrow> Some FileNotFoundError
      | Some (File b) \<Rightarrow> Some NotADirectoryError
      | Some Dir \<Rightarrow> None)"

text \<open>\<^verbatim>\<open>os.mkdir\<close>: the result is the exception raised, if any, and the new file system.\<close>

definition mkdir :: "path \<Rightarrow> fs \<Rightarrow> error option \<times> fs" where
  "mkdir p s =
     (if p = [] then (Some FileExistsError, s)
      else case parent_error s p of
             Some e \<Rightarrow> (Some e, s)
           | None \<Rightarrow>
               if path_exists s p then (Some FileExistsError, s)
               else (None, s(p \<mapsto> Dir)))"

text \<open>
  \<^verbatim>\<open>os.makedirs(name)\<close> with \<^verbatim>\<open>exist_ok=False\<close>: the missing ancestors first
  (a \<^verbatim>\<open>FileExistsError\<close> of the recursive call is swallowed), then the directory itself.
\<close>

function makedirs :: "path \<Rightarrow> fs \<Rightarrow> error option \<times> fs" where
  "makedirs name s =
     (if name \<noteq> [] \<and> \<not> path_exists s (butlast name) then
        (case makedirs (butlast name) s of
           (Some e, s') \<Rightarrow> if e = FileExistsError then mkdir name s' else (Some e, s')
         | (None, s') \<Rightarrow> mkdir name s')
      else mkdir name s)"
  by pat_completeness auto
termination
  by (relation "measure (\<lambda>(name, s). length name)") auto

declare makedirs.simps [simp del]

text \<open>\<^verbatim>\<open>open(p, "wb")\<close> followed by writing \<open>b\<close> and closing the file.\<close>

definition write_file :: "path \<Rightarrow> string \<Rightarrow> fs \<Rightarrow> error option \<times> fs" where
  "write_file p b s =
     (if p = [] then (Some IsADirectoryError, s)
      else case parent_error s p of
             Some e \<Rightarrow> (Some e, s)
           | None \<Rightarrow>
               if isdir s p then (Some IsADirectoryError, s)
               else (None, s(p \<mapsto> File b)))"

subsection \<open>The zip library\<close>

text \<open>
  A \<^verbatim>\<open>ZipInfo\<close>: the stored name of the entry and its decompressed payload
  (\<open>None\<close> when the member cannot be read: \<^verbatim>\<open>ZipFile.open\<close> raises \<^verbatim>\<open>BadZipFile\<close>).
\<close>

record zipinfo =
  filename :: string
  payload :: "string option"

text \<open>\<^verbatim>\<open>str.split('/')\<close>.\<close>

fun split_sep :: "string \<Rightarrow> string list" where
  "split_sep [] = [[]]"
| "split_sep (c # cs) =
     (if c = CHR ''/'' then [] # split_sep cs
      else case split_sep cs of
             [] \<Rightarrow> [[c]]
           | w # ws \<Rightarrow> (c # w) # ws)"

text \<open>\<^verbatim>\<open>ZipInfo.is_dir\<close> on a POSIX host (\<^verbatim>\<open>os.path.altsep\<close> is \<^verbatim>\<open>None\<close>).\<close>

definition is_dir :: "zipinfo \<Rightarrow> bool" where
  "is_dir info = (filename info \<noteq> [] \<and> last (filename info) = CHR ''/'')"

text \<open>
  The components \<^verbatim>\<open>_extract_member\<close> keeps of a member name: it splits the name at
  \<^verbatim>\<open>/\<close> and drops the empty, \<^verbatim>\<open>.\<close> and \<^verbatim>\<open>..\<close> components.
\<close>

definition invalid_path_part :: "string \<Rightarrow> bool" where
  "invalid_path_part x = (x = [] \<or> x = ''.'' \<or> x = ''..'')"

definition arcname :: "string \<Rightarrow> path" where
  "arcname name = filter (\<lambda>x. \<not> invalid_path_part x) (split_sep name)"

text \<open>
  \<^verbatim>\<open>os.path.normpath(os.path.join(targetpath, arcname))\<close>, for a destination that
  is given by the components of its absolute, normalised path (as \<^verbatim>\<open>PUBLIC_DIR\<close>
  and \<^verbatim>\<open>SIEDLER_DIR\<close> are, being built from \<^verbatim>\<open>os.path.abspath\<close>): the components
  of the destination followed by those kept of the member name. Lemma
  \<open>targetpath_strings\<close> below shows that this is the location of the string the
  library computes, for every destination string and working directory.
\<close>

definition targetpath :: "path \<Rightarrow> string \<Rightarrow> path" where
  "targetpath dest name = dest @ arcname name"

text \<open>\<^verbatim>\<open>ZipFile._extract_member\<close> (reached through \<^verbatim>\<open>ZipFile.extract\<close>).\<close>

definition extract_target :: "zipinfo \<Rightarrow> path \<Rightarrow> fs \<Rightarrow> error option \<times> fs" where
  "extract_target info t s =
     (if is_dir info then
        (if \<not> isdir s t then mkdir t s else (None, s))
      else case payload info of
             None \<Rightarrow> (Some BadZipFile, s)
           | Some b \<Rightarrow> write_file t b s)"

definition extract_member :: "zipinfo \<Rightarrow> path \<Rightarrow> fs \<Rightarrow> error option \<times> fs" where
  "extract_member info dest s =
     (let t = targetpath dest (filename info);
          upperdirs = butlast t
      in if \<not> path_exists s upperdirs then
           (case makedirs upperdirs s of
              (Some e, s') \<Rightarrow> (Some e, s')
            | (None, s') \<Rightarrow> extract_target info t s')
         else extract_target info t s)"

subsection \<open>extract_zip\<close>

text \<open>\<^verbatim>\<open>info.filename.replace("\\", "/")\<close>.\<close>

definition replace_backslash :: "string \<Rightarrow> string" where
  "replace_backslash name = map (\<lambda>c. if c = CHR 0x5C then CHR ''/'' else c) name"

text \<open>The body of the loop: the name is rewritten, then the entry extracted.\<close>

definition extract_entry :: "path \<Rightarrow> zipinfo \<Rightarrow> fs \<Rightarrow> error option \<times> fs" where
  "extract_entry dest info s =
     extract_member (info\<lparr>filename := replace_backslash (filename info)\<rparr>) dest s"

text \<open>The loop over \<^verbatim>\<open>z.infolist()\<close>; an exception ends it where it is raised.\<close>

fun extract_entries :: "path \<Rightarrow> zipinfo list \<Rightarrow> fs \<Rightarrow> error option \<times> fs" where
  "extract_entries dest [] s = (None, s)"
| "extract_entries dest (info # infos) s =
     (case extract_entry dest info s of
        (Some e, s') \<Rightarrow> (Some e, s')
      | (None, s') \<Rightarrow> extract_entries dest infos s')"

subsection \<open>Paths given as strings\<close>

text \<open>
  The archive path and the source directory are strings, resolved by the system
  from the working directory \<open>cwd\<close>, component by component: every directory
  passed through has to exist, \<^verbatim>\<open>..\<close> is the parent (the root is its own).
\<close>

fun walk :: "fs \<Rightarrow> path \<Rightarrow> string list \<Rightarrow> error + path" where
  "walk s cur [] = Inr cur"
| "walk s cur (c # cs) =
     (if \<not> isdir s cur then
        Inl (if path_exists s cur then NotADirectoryError else FileNotFoundError)
      else if c = [] \<or> c = ''.'' then walk s cur cs
      else if c = ''..'' then walk s (butlast cur) cs
      else walk s (cur @ [c]) cs)"

definition resolve :: "path \<Rightarrow> fs \<Rightarrow> string \<Rightarrow> error + path" where
  "resolve cwd s name =
     (if name = [] then Inl FileNotFoundError
      else case walk s (if hd name = CHR ''/'' then [] else cwd) (split_sep name) of
             Inl e \<Rightarrow> Inl e
           | Inr p \<Rightarrow> if path_exists s p then Inr p else Inl FileNotFoundError)"

text \<open>\<^verbatim>\<open>os.path.isdir\<close> and \<^verbatim>\<open>os.path.isfile\<close>: a failing \<^verbatim>\<open>os.stat\<close> gives \<^verbatim>\<open>False\<close>.\<close>

definition os_path_isdir :: "path \<Rightarrow> fs \<Rightarrow> string \<Rightarrow> bool" where
  "os_path_isdir cwd s name =
     (case resolve cwd s name of Inl e \<Rightarrow> False | Inr p \<Rightarrow> isdir s p)"

definition os_path_isfile :: "path \<Rightarrow> fs \<Rightarrow> string \<Rightarrow> bool" where
  "os_path_isfile cwd s name =
     (case resolve cwd s name of Inl e \<Rightarrow> False | Inr p \<Rightarrow> isfile s p)"

text \<open>\<^verbatim>\<open>posixpath.join\<close> of two strings.\<close>

definition os_path_join :: "string \<Rightarrow> string \<Rightarrow> string" where
  "os_path_join a b =
     (if b \<noteq> [] \<and> hd b = CHR ''/'' then b
      else if a = [] \<or> last a = CHR ''/'' then a @ b
      else a @ ''/'' @ b)"

text \<open>
  \<^verbatim>\<open>zipfile.ZipFile(zip_path, "r")\<close>: the file is opened for reading and its
  directory of entries read. The mode of a file is not part of a node: \<open>deny\<close>
  holds of the locations whose file the process has no permission to read (the
  extraction does not change the mode of a file). What the bytes of a file hold
  as an archive is the library's matter: \<open>rd\<close> gives the entries, or \<open>None\<close> for
  a file that is not a valid archive.
\<close>

definition open_zip ::
  "(string \<Rightarrow> zipinfo list option) \<Rightarrow> (path \<Rightarrow> bool) \<Rightarrow> path \<Rightarrow> fs \<Rightarrow> string
     \<Rightarrow> error + zipinfo list" where
  "open_zip rd deny cwd s zip_path =
     (case resolve cwd s zip_path of
        Inl e \<Rightarrow> Inl e
      | Inr p \<Rightarrow>
          (case lookup s p of
             Some (File b) \<Rightarrow>
               if deny p then Inl PermissionError
               else (case rd b of None \<Rightarrow> Inl BadZipFile | Some infos \<Rightarrow> Inr infos)
           | _ \<Rightarrow> Inl IsADirectoryError))"

text \<open>
  \<^verbatim>\<open>extract_zip(zip_path, dest)\<close>: the exception raised or the count returned, and
  the file system it leaves.
\<close>

definition extract_zip ::
  "(string \<Rightarrow> zipinfo list option) \<Rightarrow> (path \<Rightarrow> bool) \<Rightarrow> path \<Rightarrow> string \<Rightarrow> path \<Rightarrow> fs
     \<Rightarrow> (error + nat) \<times> fs" where
  "extract_zip rd deny cwd zip_path dest s =
     (case open_zip rd deny cwd s zip_path of
        Inl e \<Rightarrow> (Inl e, s)
      | Inr infos \<Rightarrow>
          (case extract_entries dest infos s of
             (Some e, s') \<Rightarrow> (Inl e, s')
           | (None, s') \<Rightarrow> (Inr (length infos), s')))"

subsection \<open>main\<close>

text \<open>
  What the process finds around it (\<open>read_denied\<close>: the files it may not read),
  and the indexer it starts.
\<close>

record completed =
  returncode :: int
  stdout :: string
  stderr :: string

record env =
  argv :: "string list"
  environ_HOME :: "string option"
  pw_uid_dir :: "string option"
  pw_nam_dir :: "string \<Rightarrow> string option"
  cwd :: path
  read_denied :: "path \<Rightarrow> bool"
  project_root :: path
  run_node :: "path \<Rightarrow> fs \<Rightarrow> (error + completed) \<times> fs"

datatype outcome = Returned | Exit nat | Uncaught error

fun exit_status :: "outcome \<Rightarrow> nat" where
  "exit_status Returned = 0"
| "exit_status (Exit n) = n"
| "exit_status (Uncaught e) = 1"

definition SCRIPT_DIR :: "env \<Rightarrow> path" where
  "SCRIPT_DIR E = project_root E @ [''scripts'']"

definition PUBLIC_DIR :: "env \<Rightarrow> path" where
  "PUBLIC_DIR E = project_root E @ [''public'']"

definition SIEDLER_DIR :: "env \<Rightarrow> path" where
  "SIEDLER_DIR E = PUBLIC_DIR E @ [''Siedler4'']"

definition MAIN_ZIP :: string where
  "MAIN_ZIP = ''settlers4-assets.zip''"

definition HD_ZIP :: string where
  "HD_ZIP = ''settlers4-hd-assets.zip''"

text \<open>\<^verbatim>\<open>str.rstrip('/')\<close> and \<^verbatim>\<open>posixpath.expanduser\<close>.\<close>

definition rstrip_sep :: "string \<Rightarrow> string" where
  "rstrip_sep x = rev (dropWhile (\<lambda>c. c = CHR ''/'') (rev x))"

definition expanduser :: "env \<Rightarrow> string \<Rightarrow> string" where
  "expanduser E p =
     (case p of
        [] \<Rightarrow> p
      | c # rest \<Rightarrow>
          if c \<noteq> CHR ''~'' then p
          else
            let name = takeWhile (\<lambda>c. c \<noteq> CHR ''/'') rest;
                tail = dropWhile (\<lambda>c. c \<noteq> CHR ''/'') rest;
                userhome =
                  (if name = [] then
                     (case environ_HOME E of Some h \<Rightarrow> Some h | None \<Rightarrow> pw_uid_dir E)
                   else pw_nam_dir E name)
            in case userhome of
                 None \<Rightarrow> p
               | Some h \<Rightarrow>
                   (let r = rstrip_sep h @ tail in (if r = [] then ''/'' else r)))"

text \<open>Decimal digits of a count, and \<^verbatim>\<open>str.strip()\<close>.\<close>

function show_nat :: "nat \<Rightarrow> string" where
  "show_nat n =
     (if n < 10 then [''0123456789'' ! n]
      else show_nat (n div 10) @ [''0123456789'' ! (n mod 10)])"
  by pat_completeness auto
termination
  by (relation "measure id") auto

declare show_nat.simps [simp del]

definition is_space :: "char \<Rightarrow> bool" where
  "is_space c = (c = CHR '' '' \<or> (9 \<le> (of_char c :: nat) \<and> (of_char c :: nat) \<le> 13)
                 \<or> (28 \<le> (of_char c :: nat) \<and> (of_char c :: nat) \<le> 31))"

definition strip :: "string \<Rightarrow> string" where
  "strip x = rev (dropWhile is_space (rev (dropWhile is_space x)))"

text \<open>Lines 69 to 87: the check of the landscape texture and the indexer.\<close>

definition main_finish :: "env \<Rightarrow> string list \<Rightarrow> fs \<Rightarrow> outcome \<times> string list \<times> fs" where
  "main_finish E out s =
     (let gh6 = SIEDLER_DIR E @ [''Gfx'', ''2.gh6''];
          out1 = out @
            [if isfile s gh6 then [CHR 0x0A] @ ''  [OK] Landscape texture (Gfx/2.gh6) found''
             else [CHR 0x0A] @ ''  [!!] Gfx/2.gh6 missing - map rendering will fail''];
          out2 = out1 @ ['''', ''Generating file-list.txt...''];
          gen_script = SCRIPT_DIR E @ [''generate-file-list.js'']
      in case run_node E gen_script s of
           (Inl e, s') \<Rightarrow> (Uncaught e, out2, s')
         | (Inr result, s') \<Rightarrow>
             if returncode result = 0 then
               (Returned, out2 @ [''  '' @ strip (stdout result), [CHR 0x0A] @ ''Done!''], s')
             else
               (Exit 1, out2 @ [''  Failed: '' @ strip (stderr result)], s'))"

text \<open>Lines 63 to 67: the optional archive.\<close>

definition main_hd ::
  "(string \<Rightarrow> zipinfo list option) \<Rightarrow> env \<Rightarrow> string \<Rightarrow> string list \<Rightarrow> fs
     \<Rightarrow> outcome \<times> string list \<times> fs" where
  "main_hd rd E hd_zip out s =
     (if os_path_isfile (cwd E) s hd_zip then
        (let out1 = out @ [''Extracting '' @ HD_ZIP @ '' -> public/Siedler4/'']
         in case extract_zip rd (read_denied E) (cwd E) hd_zip (SIEDLER_DIR E) s of
              (Inl e, s') \<Rightarrow> (Uncaught e, out1, s')
            | (Inr count, s') \<Rightarrow>
                main_finish E (out1 @ [''  '' @ show_nat count @ '' entries extracted'']) s')
      else main_finish E out s)"

text \<open>Lines 47 to 61, for the source directory that the argument expands to.\<close>

definition main_dir ::
  "(string \<Rightarrow> zipinfo list option) \<Rightarrow> env \<Rightarrow> string \<Rightarrow> fs \<Rightarrow> outcome \<times> string list \<times> fs" where
  "main_dir rd E src_dir s =
     (if \<not> os_path_isdir (cwd E) s src_dir then
        (Exit 1, [''Not a directory: '' @ src_dir], s)
      else
        let main_zip = os_path_join src_dir MAIN_ZIP;
            hd_zip = os_path_join src_dir HD_ZIP
        in if \<not> os_path_isfile (cwd E) s main_zip then
             (Exit 1, [MAIN_ZIP @ '' not found in '' @ src_dir], s)
           else
             let out = [''Extracting '' @ MAIN_ZIP @ '' -> public/Siedler4/'']
             in case extract_zip rd (read_denied E) (cwd E) main_zip (PUBLIC_DIR E) s of
                  (Inl e, s') \<Rightarrow> (Uncaught e, out, s')
                | (Inr count, s') \<Rightarrow>
                    main_hd rd E hd_zip
                      (out @ [''  '' @ show_nat count @ '' entries extracted'']) s')"

text \<open>Lines 38 to 45: the argument, and its expansion.\<close>

definition main ::
  "(string \<Rightarrow> zipinfo list option) \<Rightarrow> env \<Rightarrow> fs \<Rightarrow> outcome \<times> string list \<times> fs" where
  "main rd E s =
     (if length (argv E) < 2 then
        (Exit 1,
         [''Usage: python3 scripts/import-game-files.py <directory>'',
          '''',
          ''  Looks for '' @ MAIN_ZIP @ '' (required) and '' @ HD_ZIP @ '' (optional)'',
          ''  in the given directory and extracts them into public/Siedler4/.''],
         s)
      else main_dir rd E (expanduser E (argv E ! 1)) s)"

subsection \<open>Notions for the statements\<close>

text \<open>
  Where the loop body sends an entry, and whether it treats it as a directory:
  both are read from the rewritten name.
\<close>

definition entry_target :: "path \<Rightarrow> zipinfo \<Rightarrow> path" where
  "entry_target dest info = targetpath dest (replace_backslash (filename info))"

definition entry_is_dir :: "zipinfo \<Rightarrow> bool" where
  "entry_is_dir info = is_dir (info\<lparr>filename := replace_backslash (filename info)\<rparr>)"

text \<open>The kind of a node; \<open>keeps s s'\<close>: what exists in \<open>s\<close> exists in \<open>s'\<close> with its kind.\<close>

fun kind :: "node option \<Rightarrow> nat" where
  "kind None = 0"
| "kind (Some Dir) = 1"
| "kind (Some (File b)) = 2"

definition keeps :: "fs \<Rightarrow> fs \<Rightarrow> bool" where
  "keeps s s' = (\<forall>q. s q \<noteq> None \<longrightarrow> kind (s' q) = kind (s q))"

text \<open>
  An entry is ready in a file system that already holds its target: extracting
  it then only rewrites the file.
\<close>

definition ready :: "path \<Rightarrow> zipinfo \<Rightarrow> fs \<Rightarrow> bool" where
  "ready dest info s =
     (let t = entry_target dest info
      in path_exists s (butlast t) \<and>
         (if entry_is_dir info then isdir s t
          else t \<noteq> [] \<and> isdir s (butlast t) \<and> isfile s t \<and> payload info \<noteq> None))"

definition rewrite :: "path \<Rightarrow> zipinfo \<Rightarrow> fs \<Rightarrow> fs" where
  "rewrite dest info s =
     (if entry_is_dir info then s
      else case payload info of
             None \<Rightarrow> s
           | Some b \<Rightarrow> s(entry_target dest info \<mapsto> File b))"

text \<open>The payload of the last file entry of a list that is sent to \<open>q\<close>.\<close>

fun last_payload :: "path \<Rightarrow> zipinfo list \<Rightarrow> path \<Rightarrow> string option" where
  "last_payload dest [] q = None"
| "last_payload dest (info # infos) q =
     (case last_payload dest infos q of
        Some b \<Rightarrow> Some b
      | None \<Rightarrow> if q = entry_target dest info \<and> \<not> entry_is_dir info then payload info else None)"

text \<open>A component that is a plain name: what is left of a member name.\<close>

definition plain_part :: "string \<Rightarrow> bool" where
  "plain_part c =
     (c \<noteq> [] \<and> c \<noteq> ''.'' \<and> c \<noteq> ''..'' \<and> CHR ''/'' \<notin> set c \<and> CHR 0x5C \<notin> set c)"




text \<open>
  A file system is a tree when every node but the root lies in a directory. On
  a tree, looking a location up is what the system does when it resolves the path.
\<close>

definition wf_fs :: "fs \<Rightarrow> bool" where
  "wf_fs s = (\<forall>p. p \<noteq> [] \<and> s p \<noteq> None \<longrightarrow> isdir s (butlast p))"

text \<open>
  The target path on strings, as \<^verbatim>\<open>_extract_member\<close> computes it for any destination:
  \<^verbatim>\<open>'/'.join\<close>, \<^verbatim>\<open>posixpath.normpath\<close> (its loop body is \<open>norm_step\<close>), and the
  location that a path string denotes from the working directory \<open>wd\<close>.
\<close>

fun join_sep :: "string list \<Rightarrow> string" where
  "join_sep [] = []"
| "join_sep [x] = x"
| "join_sep (x # y # zs) = x @ CHR ''/'' # join_sep (y # zs)"

definition norm_step :: "bool \<Rightarrow> string list \<Rightarrow> string \<Rightarrow> string list" where
  "norm_step initial_slashes new_comps c =
     (if c = [] \<or> c = ''.'' then new_comps
      else if c \<noteq> ''..'' \<or> (\<not> initial_slashes \<and> new_comps = [])
              \<or> (new_comps \<noteq> [] \<and> last new_comps = ''..'')
           then new_comps @ [c]
      else if new_comps \<noteq> [] then butlast new_comps
      else new_comps)"

definition os_path_normpath :: "string \<Rightarrow> string" where
  "os_path_normpath p =
     (if p = [] then ''.''
      else
        let initial_slashes =
              (if take 2 p = ''//'' \<and> take 3 p \<noteq> ''///'' then 2
               else if hd p = CHR ''/'' then 1 else (0::nat));
            new_comps = foldl (norm_step (0 < initial_slashes)) [] (split_sep p);
            r = replicate initial_slashes CHR ''/'' @ join_sep new_comps
        in if r = [] then ''.'' else r)"

definition loc_step :: "path \<Rightarrow> string \<Rightarrow> path" where
  "loc_step cur c =
     (if c = [] \<or> c = ''.'' then cur else if c = ''..'' then butlast cur else cur @ [c])"

definition locate :: "path \<Rightarrow> string \<Rightarrow> path" where
  "locate wd p = foldl loc_step (if p \<noteq> [] \<and> hd p = CHR ''/'' then [] else wd) (split_sep p)"

definition name_part :: "string \<Rightarrow> bool" where
  "name_part c = (c \<noteq> [] \<and> c \<noteq> ''.'' \<and> c \<noteq> ''..'' \<and> CHR ''/'' \<notin> set c)"

subsection \<open>An example: archives as a Windows tool writes them\<close>

text \<open>
  A reader that knows seven archives by their bytes, and a file system that
  holds them in \<^verbatim>\<open>/zips\<close>; one of the files may not be read.
\<close>

definition ex_rd :: "string \<Rightarrow> zipinfo list option" where
  "ex_rd b =
     (if b = ''PK-gfx'' then
        Some [\<lparr>filename = ''Siedler4'' @ [CHR 0x5C] @ ''Gfx'' @ [CHR 0x5C], payload = Some []\<rparr>,
              \<lparr>filename = ''Siedler4'' @ [CHR 0x5C] @ ''Gfx'' @ [CHR 0x5C] @ ''2.gh6'',
               payload = Some ''landscape''\<rparr>]
      else if b = ''PK-mixed'' then
        Some [\<lparr>filename = ''a/b.txt'', payload = Some ''one''\<rparr>,
              \<lparr>filename = ''c'' @ [CHR 0x5C] @ ''d.txt'', payload = Some ''two''\<rparr>]
      else if b = ''PK-twice'' then
        Some [\<lparr>filename = ''a'' @ [CHR 0x5C] @ ''b.txt'', payload = Some ''first''\<rparr>,
              \<lparr>filename = ''a/b.txt'', payload = Some ''second''\<rparr>]
      else if b = ''PK-up'' then
        Some [\<lparr>filename = ''..'' @ [CHR 0x5C] @ ''evil.txt'', payload = Some ''x''\<rparr>]
      else if b = ''PK-clash'' then
        Some [\<lparr>filename = ''a'', payload = Some ''x''\<rparr>,
              \<lparr>filename = ''a'' @ [CHR 0x5C] @ ''b.txt'', payload = Some ''y''\<rparr>]
      else if b = ''PK-over'' then
        Some [\<lparr>filename = ''a'' @ [CHR 0x5C], payload = Some []\<rparr>,
              \<lparr>filename = ''a'', payload = Some ''x''\<rparr>]
      else if b = ''PK-empty'' then Some []
      else None)"

definition ex_fs :: fs where
  "ex_fs =
     [[''zips''] \<mapsto> Dir,
      [''zips'', ''settlers4-assets.zip''] \<mapsto> File ''PK-gfx'',
      [''zips'', ''mixed.zip''] \<mapsto> File ''PK-mixed'',
      [''zips'', ''twice.zip''] \<mapsto> File ''PK-twice'',
      [''zips'', ''up.zip''] \<mapsto> File ''PK-up'',
      [''zips'', ''empty.zip''] \<mapsto> File ''PK-empty'',
      [''zips'', ''clash.zip''] \<mapsto> File ''PK-clash'',
      [''zips'', ''over.zip''] \<mapsto> File ''PK-over'',
      [''zips'', ''locked.zip''] \<mapsto> File ''PK-mixed'',
      [''zips'', ''notes.txt''] \<mapsto> File ''hello'']"

definition ex_deny :: "path \<Rightarrow> bool" where
  "ex_deny p = (p = [''zips'', ''locked.zip''] \<or> p = [''locked'', ''settlers4-assets.zip''])"

text \<open>
  A process: the script lies in \<^verbatim>\<open>/proj/scripts\<close>, the working directory is
  \<^verbatim>\<open>/proj\<close>, the password database knows \<^verbatim>\<open>bob\<close>, and the indexer succeeds and
  writes its list. The directory \<^verbatim>\<open>/zips\<close> holds the primary archive only,
  \<^verbatim>\<open>/bad\<close> a file of that name that is no archive, \<^verbatim>\<open>/locked\<close> one that the
  process may not read.
\<close>

definition ex_node :: "path \<Rightarrow> fs \<Rightarrow> (error + completed) \<times> fs" where
  "ex_node gen_script s =
     (Inr \<lparr>returncode = 0, stdout = ''Wrote file-list.txt'' @ [CHR 0x0A], stderr = []\<rparr>,
      s([''proj'', ''public'', ''Siedler4'', ''file-list.txt''] \<mapsto> File ''Gfx/2.gh6''))"

definition ex_env :: "string list \<Rightarrow> string option \<Rightarrow> env" where
  "ex_env args home =
     \<lparr>argv = ''scripts/import-game-files.py'' # args,
      environ_HOME = home,
      pw_uid_dir = None,
      pw_nam_dir = (\<lambda>name. if name = ''bob'' then Some ''/home/bob'' else None),
      cwd = [''proj''],
      read_denied = ex_deny,
      project_root = [''proj''],
      run_node = ex_node\<rparr>"

definition ex_disk :: fs where
  "ex_disk =
     [[''zips''] \<mapsto> Dir,
      [''zips'', ''settlers4-assets.zip''] \<mapsto> File ''PK-gfx'',
      [''bad''] \<mapsto> Dir,
      [''bad'', ''settlers4-assets.zip''] \<mapsto> File ''garbage'',
      [''locked''] \<mapsto> Dir,
      [''locked'', ''settlers4-assets.zip''] \<mapsto> File ''PK-gfx'',
      [''home''] \<mapsto> Dir,
      [''home'', ''u''] \<mapsto> Dir,
      [''home'', ''u'', ''settlers4-assets.zip''] \<mapsto> File ''PK-empty'',
      [''home'', ''bob''] \<mapsto> Dir,
      [''home'', ''bob'', ''settlers4-assets.zip''] \<mapsto> File ''PK-up'',
      [''proj''] \<mapsto> Dir,
      [''proj'', ''~''] \<mapsto> Dir,
      [''proj'', ''~'', ''settlers4-assets.zip''] \<mapsto> File ''PK-mixed'']"

section \<open>Properties of the file system and of the loop\<close>

lemma mkdir_cases:
  assumes "mkdir p s = (r, s')"
  shows "(r = None \<and> p \<noteq> [] \<and> s p = None \<and> isdir s (butlast p) \<and> s' = s(p \<mapsto> Dir))
       \<or> (r \<noteq> None \<and> s' = s)"
  using assms
  by (auto simp: mkdir_def parent_error_def path_exists_def lookup_def isdir_def
           split: option.splits node.splits if_splits)

lemma write_file_cases:
  assumes "write_file p b s = (r, s')"
  shows "(r = None \<and> p \<noteq> [] \<and> s p \<noteq> Some Dir \<and> isdir s (butlast p) \<and> s' = s(p \<mapsto> File b))
       \<or> (r \<noteq> None \<and> s' = s)"
  using assms
  by (auto simp: write_file_def parent_error_def path_exists_def lookup_def isdir_def
           split: option.splits node.splits if_splits)

lemma makedirs_leaf:
  "name = [] \<or> path_exists s (butlast name) \<Longrightarrow> makedirs name s = mkdir name s"
  by (subst makedirs.simps) auto

lemma makedirs_rec:
  "name \<noteq> [] \<Longrightarrow> \<not> path_exists s (butlast name) \<Longrightarrow>
   makedirs name s =
     (case makedirs (butlast name) s of
        (Some e, s') \<Rightarrow> if e = FileExistsError then mkdir name s' else (Some e, s')
      | (None, s') \<Rightarrow> mkdir name s')"
  by (subst makedirs.simps) auto

lemma makedirs_frame:
  "makedirs name s = (r, s') \<Longrightarrow> s' q \<noteq> s q \<Longrightarrow> s q = None \<and> s' q = Some Dir \<and> prefix q name"
proof (induction name s arbitrary: r s' rule: makedirs.induct)
  case (1 name s)
  show ?case
  proof (cases "name \<noteq> [] \<and> \<not> path_exists s (butlast name)")
    case False
    then have "mkdir name s = (r, s')"
      using "1.prems"(1) makedirs_leaf [of name s] by auto
    from mkdir_cases [OF this] "1.prems"(2) show ?thesis
      by (auto split: if_splits)
  next
    case True
    obtain r1 s1 where up: "makedirs (butlast name) s = (r1, s1)"
      by (cases "makedirs (butlast name) s")
    have ih: "s1 q \<noteq> s q \<Longrightarrow> s q = None \<and> s1 q = Some Dir \<and> prefix q (butlast name)"
      using "1.IH" [OF True up] by blast
    have pb: "prefix (butlast name) name"
      by (simp add: prefixeq_butlast)
    show ?thesis
    proof (cases "r1 = None \<or> r1 = Some FileExistsError")
      case False
      then have "s' = s1"
        using "1.prems"(1) True up
        by (auto simp: makedirs_rec split: option.splits)
      then show ?thesis using ih "1.prems"(2) pb by auto
    next
      case True2: True
      then have "mkdir name s1 = (r, s')"
        using "1.prems"(1) True up
        by (auto simp: makedirs_rec split: option.splits)
      from mkdir_cases [OF this] show ?thesis
      proof
        assume a: "r = None \<and> name \<noteq> [] \<and> s1 name = None \<and> isdir s1 (butlast name) \<and> s' = s1(name \<mapsto> Dir)"
        show ?thesis
        proof (cases "q = name")
          case True
          then have "s q = None" using a ih by (cases "s1 q = s q") auto
          then show ?thesis using a True by simp
        next
          case False
          then have "s' q = s1 q" using a by simp
          then show ?thesis using ih "1.prems"(2) pb by auto
        qed
      next
        assume "r \<noteq> None \<and> s' = s1"
        then show ?thesis using ih "1.prems"(2) pb by auto
      qed
    qed
  qed
qed

lemma makedirs_isdir:
  assumes "makedirs name s = (None, s')"
  shows "isdir s' name"
proof -
  have "\<exists>s1. mkdir name s1 = (None, s')"
    using assms
    by (subst (asm) makedirs.simps) (auto split: if_splits option.splits prod.splits)
  then obtain s1 where "mkdir name s1 = (None, s')" ..
  from mkdir_cases [OF this] show ?thesis
    by (auto simp: isdir_def lookup_def)
qed

lemma kind_0 [simp]: "kind x = 0 \<longleftrightarrow> x = None"
  by (cases x rule: kind.cases) auto

lemma kind_1 [simp]: "kind x = Suc 0 \<longleftrightarrow> x = Some Dir"
  by (cases x rule: kind.cases) auto

lemma kind_2 [simp]: "kind x = 2 \<longleftrightarrow> (\<exists>b. x = Some (File b))"
  by (cases x rule: kind.cases) auto

lemma extract_target_cases:
  assumes "extract_target info t s = (r, s')"
  shows "(r \<noteq> None \<and> s' = s)
       \<or> (r = None \<and> is_dir info \<and> isdir s t \<and> s' = s)
       \<or> (r = None \<and> is_dir info \<and> t \<noteq> [] \<and> s t = None \<and> isdir s (butlast t)
            \<and> s' = s(t \<mapsto> Dir))
       \<or> (r = None \<and> \<not> is_dir info \<and> t \<noteq> [] \<and> s t \<noteq> Some Dir \<and> isdir s (butlast t)
            \<and> (\<exists>b. payload info = Some b \<and> s' = s(t \<mapsto> File b)))"
proof (cases "is_dir info")
  case True
  show ?thesis
  proof (cases "isdir s t")
    case True
    with \<open>is_dir info\<close> assms show ?thesis by (auto simp: extract_target_def)
  next
    case False
    with \<open>is_dir info\<close> assms have "mkdir t s = (r, s')" by (simp add: extract_target_def)
    from mkdir_cases [OF this] \<open>is_dir info\<close> show ?thesis by auto
  qed
next
  case False
  show ?thesis
  proof (cases "payload info")
    case None
    with False assms show ?thesis by (auto simp: extract_target_def)
  next
    case (Some b)
    with False assms have "write_file t b s = (r, s')" by (simp add: extract_target_def)
    from write_file_cases [OF this] False Some show ?thesis by auto
  qed
qed

lemma extract_entry_split:
  assumes "extract_entry dest info s = (r, s')"
  shows "(\<not> path_exists s (butlast (entry_target dest info)) \<and> r \<noteq> None
           \<and> makedirs (butlast (entry_target dest info)) s = (r, s'))
       \<or> (\<exists>s1. (path_exists s (butlast (entry_target dest info)) \<and> s1 = s
                 \<or> \<not> path_exists s (butlast (entry_target dest info))
                    \<and> makedirs (butlast (entry_target dest info)) s = (None, s1))
               \<and> extract_target (info\<lparr>filename := replace_backslash (filename info)\<rparr>)
                    (entry_target dest info) s1 = (r, s'))"
  using assms
  by (auto simp: extract_entry_def extract_member_def entry_target_def Let_def
           split: if_splits prod.splits option.splits)

lemma extract_entry_frame:
  assumes "extract_entry dest info s = (r, s')" and "s' q \<noteq> s q"
  shows "(s q = None \<and> s' q = Some Dir \<and> prefix q (entry_target dest info))
       \<or> (q = entry_target dest info \<and> \<not> entry_is_dir info \<and> s q \<noteq> Some Dir
            \<and> (\<exists>b. payload info = Some b \<and> s' q = Some (File b)))"
proof -
  let ?t = "entry_target dest info"
  let ?i = "info\<lparr>filename := replace_backslash (filename info)\<rparr>"
  have pb: "prefix q (butlast ?t) \<Longrightarrow> prefix q ?t" for q
    using prefixeq_butlast [of ?t] by (rule prefix_order.trans [rotated])
  from extract_entry_split [OF assms(1)] show ?thesis
  proof
    assume "\<not> path_exists s (butlast ?t) \<and> r \<noteq> None \<and> makedirs (butlast ?t) s = (r, s')"
    then show ?thesis using makedirs_frame [of "butlast ?t" s r s' q] assms(2) pb by blast
  next
    assume "\<exists>s1. (path_exists s (butlast ?t) \<and> s1 = s
                 \<or> \<not> path_exists s (butlast ?t) \<and> makedirs (butlast ?t) s = (None, s1))
               \<and> extract_target ?i ?t s1 = (r, s')"
    then obtain s1 where
      s1: "s1 = s \<or> makedirs (butlast ?t) s = (None, s1)"
      and tg: "extract_target ?i ?t s1 = (r, s')" by blast
    have fr: "s1 q \<noteq> s q \<Longrightarrow> s q = None \<and> s1 q = Some Dir \<and> prefix q ?t"
      using s1 makedirs_frame [of "butlast ?t" s None s1 q] pb by blast
    from extract_target_cases [OF tg]
    consider (same) "s' = s1"
      | (mk) "?t \<noteq> [] \<and> s1 ?t = None \<and> s' = s1(?t \<mapsto> Dir)"
      | (wr) b where "\<not> is_dir ?i \<and> s1 ?t \<noteq> Some Dir \<and> payload info = Some b
          \<and> s' = s1(?t \<mapsto> File b)"
      by auto
    then show ?thesis
    proof cases
      case same
      then show ?thesis using fr assms(2) by simp
    next
      case mk
      show ?thesis
      proof (cases "q = ?t")
        case True
        then have "s q = None" using mk fr by (cases "s1 q = s q") auto
        then show ?thesis using mk True by simp
      next
        case False
        then show ?thesis using mk fr assms(2) by simp
      qed
    next
      case wr
      show ?thesis
      proof (cases "q = ?t")
        case True
        then have "s q \<noteq> Some Dir" using wr fr by (cases "s1 q = s q") auto
        then show ?thesis using wr True by (simp add: entry_is_dir_def)
      next
        case False
        then show ?thesis using wr fr assms(2) by simp
      qed
    qed
  qed
qed

lemma keeps_refl: "keeps s s"
  by (simp add: keeps_def)

lemma keeps_trans:
  assumes "keeps a b" and "keeps b c"
  shows "keeps a c"
  unfolding keeps_def
proof (intro allI impI)
  fix q assume "a q \<noteq> None"
  then have ab: "kind (b q) = kind (a q)" and "kind (a q) \<noteq> 0"
    using assms(1) by (auto simp: keeps_def)
  then have "b q \<noteq> None" by (metis kind_0)
  then have "kind (c q) = kind (b q)" using assms(2) by (auto simp: keeps_def)
  with ab show "kind (c q) = kind (a q)" by simp
qed

lemma extract_entry_keeps:
  assumes "extract_entry dest info s = (r, s')"
  shows "keeps s s'"
  unfolding keeps_def
proof (intro allI impI)
  fix q assume ex: "s q \<noteq> None"
  show "kind (s' q) = kind (s q)"
  proof (cases "s' q = s q")
    case True
    then show ?thesis by simp
  next
    case False
    from extract_entry_frame [OF assms False] ex obtain b where
      "s q \<noteq> Some Dir" and "s' q = Some (File b)" by auto
    with ex show ?thesis by (cases "s q" rule: kind.cases) auto
  qed
qed

lemma keeps_kind: "keeps s s' \<Longrightarrow> s p \<noteq> None \<Longrightarrow> kind (s' p) = kind (s p)"
  by (simp add: keeps_def)

lemma keeps_path_exists:
  assumes "keeps s s'" and "path_exists s p"
  shows "path_exists s' p"
proof (cases "p = []")
  case True
  then show ?thesis by (simp add: path_exists_def lookup_def)
next
  case False
  with assms(2) have "s p \<noteq> None" by (simp add: path_exists_def lookup_def)
  with keeps_kind [OF assms(1) this] have "s' p \<noteq> None" by (metis kind_0)
  with False show ?thesis by (simp add: path_exists_def lookup_def)
qed

lemma keeps_isdir:
  assumes "keeps s s'" and "isdir s p"
  shows "isdir s' p"
proof (cases "p = []")
  case True
  then show ?thesis by (simp add: isdir_def lookup_def)
next
  case False
  with assms(2) have "s p = Some Dir" by (simp add: isdir_def lookup_def)
  with keeps_kind [OF assms(1), of p] have "s' p = Some Dir" by simp
  with False show ?thesis by (simp add: isdir_def lookup_def)
qed

lemma keeps_isfile:
  assumes "keeps s s'" and "isfile s p"
  shows "isfile s' p"
proof (cases "p = []")
  case True
  with assms(2) show ?thesis by (simp add: isfile_def lookup_def)
next
  case False
  with assms(2) obtain b where "s p = Some (File b)"
    by (auto simp: isfile_def lookup_def split: option.splits node.splits)
  with keeps_kind [OF assms(1), of p] obtain b' where "s' p = Some (File b')" by auto
  with False show ?thesis by (simp add: isfile_def lookup_def)
qed

lemma ready_keeps: "ready dest info s \<Longrightarrow> keeps s s' \<Longrightarrow> ready dest info s'"
  by (auto simp: ready_def Let_def keeps_path_exists keeps_isdir keeps_isfile split: if_splits)

lemma isdir_path_exists: "isdir s p \<Longrightarrow> path_exists s p"
  by (simp add: isdir_def path_exists_def)

lemma extract_entry_ready:
  assumes "extract_entry dest info s = (None, s')"
  shows "ready dest info s'"
proof -
  let ?t = "entry_target dest info"
  let ?i = "info\<lparr>filename := replace_backslash (filename info)\<rparr>"
  from extract_entry_split [OF assms] obtain s1 where
    s1: "path_exists s (butlast ?t) \<and> s1 = s \<or> makedirs (butlast ?t) s = (None, s1)"
    and tg: "extract_target ?i ?t s1 = (None, s')" by blast
  have up: "path_exists s1 (butlast ?t)"
    using s1 makedirs_isdir [of "butlast ?t" s s1] isdir_path_exists by blast
  have ne: "?t \<noteq> [] \<Longrightarrow> butlast ?t \<noteq> ?t"
    by (metis append_butlast_last_id append_self_conv not_Cons_self2)
  from extract_target_cases [OF tg] up ne show ?thesis
    by (auto simp: ready_def Let_def entry_is_dir_def path_exists_def isdir_def isfile_def
                   lookup_def split: if_splits)
qed

lemma ready_extract_entry:
  assumes "ready dest info s"
  shows "extract_entry dest info s = (None, rewrite dest info s)"
proof (cases "entry_is_dir info")
  case True
  with assms show ?thesis
    by (auto simp: ready_def Let_def extract_entry_def extract_member_def extract_target_def
                   rewrite_def entry_target_def entry_is_dir_def)
next
  case False
  with assms obtain b where b: "payload info = Some b" by (auto simp: ready_def Let_def)
  from assms False have "write_file (entry_target dest info) b s
      = (None, s(entry_target dest info \<mapsto> File b))"
    by (auto simp: ready_def Let_def write_file_def parent_error_def isdir_def isfile_def
             split: option.splits node.splits)
  with assms False b show ?thesis
    by (auto simp: ready_def Let_def extract_entry_def extract_member_def extract_target_def
                   rewrite_def entry_target_def entry_is_dir_def)
qed

lemma ready_rewrite_keeps:
  assumes "ready dest info s"
  shows "keeps s (rewrite dest info s)"
  using extract_entry_keeps [OF ready_extract_entry [OF assms]] .

lemma extract_entry_file:
  assumes "extract_entry dest info s = (None, s')" and "\<not> entry_is_dir info"
  shows "\<exists>b. payload info = Some b \<and> s' (entry_target dest info) = Some (File b)"
proof -
  let ?t = "entry_target dest info"
  let ?i = "info\<lparr>filename := replace_backslash (filename info)\<rparr>"
  from extract_entry_split [OF assms(1)] obtain s1 where
    "extract_target ?i ?t s1 = (None, s')" by blast
  from extract_target_cases [OF this] assms(2) show ?thesis
    by (auto simp: entry_is_dir_def)
qed

lemma extract_entry_dir:
  assumes "extract_entry dest info s = (None, s')" and "entry_is_dir info"
  shows "isdir s' (entry_target dest info)"
  using extract_entry_ready [OF assms(1)] assms(2) by (simp add: ready_def Let_def)

lemma extract_entries_keeps:
  "extract_entries dest infos s = (r, s') \<Longrightarrow> keeps s s'"
proof (induction infos arbitrary: s)
  case Nil
  then show ?case by (simp add: keeps_refl)
next
  case (Cons info infos)
  obtain r1 s1 where st: "extract_entry dest info s = (r1, s1)"
    by (cases "extract_entry dest info s")
  show ?case
  proof (cases r1)
    case None
    with Cons.prems st have "extract_entries dest infos s1 = (r, s')" by simp
    from Cons.IH [OF this] extract_entry_keeps [OF st] show ?thesis
      by (blast intro: keeps_trans)
  next
    case (Some e)
    with Cons.prems st have "s' = s1" by simp
    with extract_entry_keeps [OF st] show ?thesis by simp
  qed
qed

lemma extract_entries_frame:
  "extract_entries dest infos s = (r, s') \<Longrightarrow> s' q \<noteq> s q \<Longrightarrow>
   (s q = None \<and> s' q = Some Dir \<and> (\<exists>info\<in>set infos. prefix q (entry_target dest info)))
   \<or> (s q \<noteq> Some Dir \<and>
       (\<exists>info\<in>set infos. q = entry_target dest info \<and> \<not> entry_is_dir info
          \<and> (\<exists>b. payload info = Some b \<and> s' q = Some (File b))))"
proof (induction infos arbitrary: s)
  case Nil
  then show ?case by simp
next
  case (Cons info infos)
  obtain r1 s1 where st: "extract_entry dest info s = (r1, s1)"
    by (cases "extract_entry dest info s")
  have rest: "(r1 \<noteq> None \<and> s' = s1) \<or> extract_entries dest infos s1 = (r, s')"
    using Cons.prems(1) st by (cases r1) auto
  then have k: "keeps s1 s'"
    using extract_entries_keeps keeps_refl by blast
  have ih: "s' q \<noteq> s1 q \<Longrightarrow>
     (s1 q = None \<and> s' q = Some Dir \<and> (\<exists>i\<in>set infos. prefix q (entry_target dest i)))
     \<or> (s1 q \<noteq> Some Dir \<and>
         (\<exists>i\<in>set infos. q = entry_target dest i \<and> \<not> entry_is_dir i
            \<and> (\<exists>b. payload i = Some b \<and> s' q = Some (File b))))"
    using rest Cons.IH [of s1] by blast
  show ?case
  proof (cases "s1 q = s q")
    case True
    with Cons.prems(2) have "s' q \<noteq> s1 q" by simp
    from ih [OF this] True show ?thesis by auto
  next
    case False
    from extract_entry_frame [OF st False]
    show ?thesis
    proof
      assume a: "s q = None \<and> s1 q = Some Dir \<and> prefix q (entry_target dest info)"
      then have "kind (s' q) = kind (s1 q)" using k by (simp add: keeps_def)
      with a have "s' q = Some Dir" by simp
      with a show ?thesis by auto
    next
      assume a: "q = entry_target dest info \<and> \<not> entry_is_dir info \<and> s q \<noteq> Some Dir
            \<and> (\<exists>b. payload info = Some b \<and> s1 q = Some (File b))"
      show ?thesis
      proof (cases "s' q = s1 q")
        case True
        with a show ?thesis by auto
      next
        case False
        from ih [OF this] a show ?thesis by auto
      qed
    qed
  qed
qed

lemma extract_entries_ready:
  "extract_entries dest infos s = (None, s') \<Longrightarrow> info \<in> set infos \<Longrightarrow> ready dest info s'"
proof (induction infos arbitrary: s)
  case Nil
  then show ?case by simp
next
  case (Cons a infos)
  obtain r1 s1 where st: "extract_entry dest a s = (r1, s1)"
    by (cases "extract_entry dest a s")
  with Cons.prems(1) have r1: "r1 = None" and rest: "extract_entries dest infos s1 = (None, s')"
    by (cases r1; simp)+
  show ?case
  proof (cases "info = a")
    case True
    from st r1 have "ready dest a s1" using extract_entry_ready by simp
    with extract_entries_keeps [OF rest] True show ?thesis by (blast intro: ready_keeps)
  next
    case False
    with Cons.prems(2) have "info \<in> set infos" by simp
    from Cons.IH [OF rest this] show ?thesis .
  qed
qed

lemma ready_extract_entries:
  "(\<forall>info\<in>set infos. ready dest info s) \<Longrightarrow>
   extract_entries dest infos s = (None, fold (rewrite dest) infos s)"
proof (induction infos arbitrary: s)
  case Nil
  then show ?case by simp
next
  case (Cons a infos)
  then have ra: "ready dest a s" by simp
  have "\<forall>info\<in>set infos. ready dest info (rewrite dest a s)"
    using Cons.prems ready_rewrite_keeps [OF ra] by (auto intro: ready_keeps)
  from Cons.IH [OF this] ready_extract_entry [OF ra] show ?case by simp
qed

lemma fold_rewrite_upd:
  "\<exists>info\<in>set infos. q = entry_target dest info \<and> \<not> entry_is_dir info \<and> payload info \<noteq> None
   \<Longrightarrow> fold (rewrite dest) infos (x(q \<mapsto> v)) = fold (rewrite dest) infos x"
proof (induction infos arbitrary: x)
  case Nil
  then show ?case by simp
next
  case (Cons a infos)
  show ?case
  proof (cases "q = entry_target dest a \<and> \<not> entry_is_dir a \<and> payload a \<noteq> None")
    case True
    then have "rewrite dest a (x(q \<mapsto> v)) = rewrite dest a x"
      by (auto simp: rewrite_def)
    then show ?thesis by (simp only: fold_simps comp_apply)
  next
    case False
    with Cons.prems have ex: "\<exists>info\<in>set infos. q = entry_target dest info
        \<and> \<not> entry_is_dir info \<and> payload info \<noteq> None" by auto
    from False have "rewrite dest a (x(q \<mapsto> v)) = (rewrite dest a x)(q \<mapsto> v)"
      by (auto simp: rewrite_def fun_upd_twist split: option.splits)
    with Cons.IH [OF ex] show ?thesis by (simp only: fold_simps comp_apply)
  qed
qed

lemma extract_entries_fixed:
  "extract_entries dest infos s = (None, s') \<Longrightarrow> fold (rewrite dest) infos s' = s'"
proof (induction infos arbitrary: s)
  case Nil
  then show ?case by simp
next
  case (Cons a infos)
  obtain r1 s1 where st: "extract_entry dest a s = (r1, s1)"
    by (cases "extract_entry dest a s")
  with Cons.prems(1) have r1: "r1 = None" and rest: "extract_entries dest infos s1 = (None, s')"
    by (cases r1; simp)+
  note ih = Cons.IH [OF rest]
  show ?case
  proof (cases "entry_is_dir a")
    case True
    then show ?thesis using ih by (simp add: rewrite_def)
  next
    case False
    from extract_entry_file [OF st [unfolded r1] False] obtain b where
      b: "payload a = Some b" "s1 (entry_target dest a) = Some (File b)" by blast
    let ?q = "entry_target dest a"
    have rw: "rewrite dest a s' = s'(?q \<mapsto> File b)"
      using False b by (simp add: rewrite_def)
    show ?thesis
    proof (cases "\<exists>info\<in>set infos. ?q = entry_target dest info \<and> \<not> entry_is_dir info
        \<and> payload info \<noteq> None")
      case True
      from fold_rewrite_upd [OF this] ih rw show ?thesis by simp
    next
      case no: False
      have "s' ?q = s1 ?q"
      proof (rule ccontr)
        assume "s' ?q \<noteq> s1 ?q"
        from extract_entries_frame [OF rest this] b no show False by auto
      qed
      with b have "s'(?q \<mapsto> File b) = s'" by (auto simp: fun_upd_idem_iff)
      with rw ih show ?thesis by simp
    qed
  qed
qed

lemma extract_entries_again:
  assumes "extract_entries dest infos s = (None, s')"
  shows "extract_entries dest infos s' = (None, s')"
proof -
  have "\<forall>info\<in>set infos. ready dest info s'"
    using extract_entries_ready [OF assms] by blast
  from ready_extract_entries [OF this] extract_entries_fixed [OF assms] show ?thesis by simp
qed

lemma extract_entries_append:
  "extract_entries dest (xs @ ys) s =
     (case extract_entries dest xs s of
        (Some e, s1) \<Rightarrow> (Some e, s1)
      | (None, s1) \<Rightarrow> extract_entries dest ys s1)"
  by (induction xs arbitrary: s) (auto split: prod.splits option.splits)

lemma extract_entries_last_wins:
  assumes "extract_entries dest (pre @ info # post) s = (None, s')"
    and "\<not> entry_is_dir info"
    and "\<forall>i\<in>set post. \<not> entry_is_dir i \<longrightarrow> entry_target dest i \<noteq> entry_target dest info"
  shows "\<exists>b. payload info = Some b \<and> s' (entry_target dest info) = Some (File b)"
proof -
  let ?q = "entry_target dest info"
  from assms(1) obtain s0 s1 where
    st: "extract_entry dest info s0 = (None, s1)" and
    rest: "extract_entries dest post s1 = (None, s')"
    by (auto simp: extract_entries_append split: prod.splits option.splits)
  from extract_entry_file [OF st assms(2)] obtain b where
    b: "payload info = Some b" "s1 ?q = Some (File b)" by blast
  have "s' ?q = s1 ?q"
  proof (rule ccontr)
    assume "s' ?q \<noteq> s1 ?q"
    from extract_entries_frame [OF rest this] b assms(3) show False by auto
  qed
  with b show ?thesis by simp
qed

lemma fold_rewrite_apply:
  "fold (rewrite dest) infos x q =
     (case last_payload dest infos q of Some b \<Rightarrow> Some (File b) | None \<Rightarrow> x q)"
proof (induction infos arbitrary: x)
  case Nil
  then show ?case by simp
next
  case (Cons a infos)
  have "fold (rewrite dest) (a # infos) x q = fold (rewrite dest) infos (rewrite dest a x) q"
    by simp
  also have "\<dots> = (case last_payload dest infos q of Some b \<Rightarrow> Some (File b)
                      | None \<Rightarrow> rewrite dest a x q)"
    by (rule Cons.IH)
  also have "\<dots> = (case last_payload dest (a # infos) q of Some b \<Rightarrow> Some (File b)
                      | None \<Rightarrow> x q)"
    by (auto simp: rewrite_def split: option.splits)
  finally show ?case .
qed

lemma last_payload_written:
  "last_payload dest infos q = Some b \<Longrightarrow>
   \<exists>info\<in>set infos. q = entry_target dest info \<and> \<not> entry_is_dir info"
  by (induction infos) (auto split: option.splits if_splits)

lemma fold_rewrite_fixed_transfer:
  assumes "fold (rewrite dest) infos a = a"
    and "\<And>info. info \<in> set infos \<Longrightarrow> \<not> entry_is_dir info \<Longrightarrow>
           b (entry_target dest info) = a (entry_target dest info)"
  shows "fold (rewrite dest) infos b = b"
proof
  fix q
  show "fold (rewrite dest) infos b q = b q"
  proof (cases "last_payload dest infos q")
    case None
    then show ?thesis by (simp add: fold_rewrite_apply)
  next
    case (Some v)
    from last_payload_written [OF this] assms(2) have "b q = a q" by blast
    also have "a q = fold (rewrite dest) infos a q" using assms(1) by simp
    also have "\<dots> = Some (File v)" using Some by (simp add: fold_rewrite_apply)
    finally show ?thesis using Some by (simp add: fold_rewrite_apply)
  qed
qed

lemma not_prefix_butlast: "name \<noteq> [] \<Longrightarrow> \<not> prefix name (butlast name)"
proof
  assume ne: "name \<noteq> []" and "prefix name (butlast name)"
  then have le: "length name \<le> length (butlast name)" using prefix_length_le by blast
  from ne have "0 < length name" by simp
  then show False using le length_butlast [of name] by linarith
qed

lemma makedirs_failure:
  "makedirs name s = (Some e, s') \<Longrightarrow> \<not> path_exists s name \<Longrightarrow>
   s' = s \<and> e \<noteq> FileExistsError"
proof (induction name s arbitrary: e s' rule: makedirs.induct)
  case (1 name s)
  from "1.prems"(2) have ne: "name \<noteq> []" and sn: "s name = None"
    by (auto simp: path_exists_def lookup_def split: if_splits)
  show ?case
  proof (cases "path_exists s (butlast name)")
    case True
    then have "mkdir name s = (Some e, s')"
      using "1.prems"(1) makedirs_leaf [of name s] by simp
    then show ?thesis using "1.prems"(2) ne
      by (auto simp: mkdir_def parent_error_def split: if_splits option.splits node.splits)
  next
    case False
    obtain r1 s1 where up: "makedirs (butlast name) s = (r1, s1)"
      by (cases "makedirs (butlast name) s")
    show ?thesis
    proof (cases r1)
      case (Some e1)
      from "1.IH" [OF _ up [unfolded Some] False] ne False
      have "s1 = s \<and> e1 \<noteq> FileExistsError" by simp
      then show ?thesis using "1.prems"(1) ne False up Some
        by (simp add: makedirs_rec)
    next
      case None
      then have mk: "mkdir name s1 = (Some e, s')"
        using "1.prems"(1) ne False up by (simp add: makedirs_rec)
      have par: "isdir s1 (butlast name)"
        using makedirs_isdir up None by simp
      have "\<not> prefix name (butlast name)"
        using ne not_prefix_butlast by blast
      then have "s1 name = s name"
        using makedirs_frame [OF up, of name] by blast
      with sn ne par have "mkdir name s1 = (None, s1(name \<mapsto> Dir))"
        by (simp add: mkdir_def parent_error_def path_exists_def lookup_def isdir_def)
      with mk show ?thesis by simp
    qed
  qed
qed

lemma extract_target_failure:
  "extract_target info t s = (Some e, s') \<Longrightarrow> s' = s"
  using extract_target_cases [of info t s "Some e" s'] by auto

lemma extract_entry_failure_again:
  assumes "extract_entry dest info s = (Some e, s')"
  shows "extract_entry dest info s' = (Some e, s')"
proof -
  let ?t = "entry_target dest info"
  let ?i = "info\<lparr>filename := replace_backslash (filename info)\<rparr>"
  from extract_entry_split [OF assms] show ?thesis
  proof
    assume a: "\<not> path_exists s (butlast ?t) \<and> Some e \<noteq> None
        \<and> makedirs (butlast ?t) s = (Some e, s')"
    then have "s' = s" using makedirs_failure by blast
    with assms show ?thesis by simp
  next
    assume "\<exists>s1. (path_exists s (butlast ?t) \<and> s1 = s
                 \<or> \<not> path_exists s (butlast ?t) \<and> makedirs (butlast ?t) s = (None, s1))
               \<and> extract_target ?i ?t s1 = (Some e, s')"
    then obtain s1 where
      s1: "path_exists s (butlast ?t) \<and> s1 = s \<or> makedirs (butlast ?t) s = (None, s1)"
      and tg: "extract_target ?i ?t s1 = (Some e, s')" by blast
    have eq: "s' = s1" using extract_target_failure [OF tg] .
    have "path_exists s1 (butlast ?t)"
      using s1 makedirs_isdir [of "butlast ?t" s s1] isdir_path_exists by blast
    with tg eq show ?thesis
      by (simp add: extract_entry_def extract_member_def Let_def entry_target_def)
  qed
qed

lemma extract_entry_failure_frame:
  assumes "extract_entry dest info s = (Some e, s')" and "s' q \<noteq> s q"
  shows "s q = None"
proof -
  let ?t = "entry_target dest info"
  let ?i = "info\<lparr>filename := replace_backslash (filename info)\<rparr>"
  from extract_entry_split [OF assms(1)] show ?thesis
  proof
    assume "\<not> path_exists s (butlast ?t) \<and> Some e \<noteq> None
        \<and> makedirs (butlast ?t) s = (Some e, s')"
    then show ?thesis using makedirs_frame assms(2) by blast
  next
    assume "\<exists>s1. (path_exists s (butlast ?t) \<and> s1 = s
                 \<or> \<not> path_exists s (butlast ?t) \<and> makedirs (butlast ?t) s = (None, s1))
               \<and> extract_target ?i ?t s1 = (Some e, s')"
    then obtain s1 where
      s1: "s1 = s \<or> makedirs (butlast ?t) s = (None, s1)"
      and tg: "extract_target ?i ?t s1 = (Some e, s')" by blast
    have "s' = s1" using extract_target_failure [OF tg] .
    with s1 assms(2) show ?thesis using makedirs_frame by blast
  qed
qed

lemma extract_entries_failure:
  "extract_entries dest infos s = (Some e, s') \<Longrightarrow>
   \<exists>pre x post sk. infos = pre @ x # post \<and> extract_entries dest pre s = (None, sk)
      \<and> extract_entry dest x sk = (Some e, s')"
proof (induction infos arbitrary: s)
  case Nil
  then show ?case by simp
next
  case (Cons a infos)
  obtain r1 s1 where st: "extract_entry dest a s = (r1, s1)"
    by (cases "extract_entry dest a s")
  show ?case
  proof (cases r1)
    case None
    with Cons.prems st have "extract_entries dest infos s1 = (Some e, s')" by simp
    from Cons.IH [OF this] obtain pre x post sk where
      "infos = pre @ x # post" "extract_entries dest pre s1 = (None, sk)"
      "extract_entry dest x sk = (Some e, s')" by blast
    with st None have "a # infos = (a # pre) @ x # post \<and>
      extract_entries dest (a # pre) s = (None, sk) \<and> extract_entry dest x sk = (Some e, s')"
      by simp
    then show ?thesis
      by (intro exI [of _ "a # pre"] exI [of _ x] exI [of _ post] exI [of _ sk])
  next
    case (Some e1)
    with Cons.prems st have "a # infos = [] @ a # infos \<and>
      extract_entries dest [] s = (None, s) \<and> extract_entry dest a s = (Some e, s')"
      by simp
    then show ?thesis
      by (intro exI [of _ "[]"] exI [of _ a] exI [of _ infos] exI [of _ s])
  qed
qed

lemma extract_entries_idem:
  "extract_entries dest infos (snd (extract_entries dest infos s)) = extract_entries dest infos s"
proof (cases "extract_entries dest infos s")
  case (Pair r s')
  show ?thesis
  proof (cases r)
    case None
    from extract_entries_again [OF Pair [unfolded None]] Pair None show ?thesis by simp
  next
    case (Some e)
    from extract_entries_failure [OF Pair [unfolded Some]] obtain pre x post sk where
      dec: "infos = pre @ x # post" and pre: "extract_entries dest pre s = (None, sk)"
      and st: "extract_entry dest x sk = (Some e, s')" by blast
    have k: "keeps sk s'" using extract_entry_keeps [OF st] .
    have rd: "\<forall>info\<in>set pre. ready dest info s'"
    proof
      fix info assume "info \<in> set pre"
      from ready_keeps [OF extract_entries_ready [OF pre this] k] show "ready dest info s'" .
    qed
    have "fold (rewrite dest) pre s' = s'"
    proof (rule fold_rewrite_fixed_transfer [OF extract_entries_fixed [OF pre]])
      fix info assume i: "info \<in> set pre" and f: "\<not> entry_is_dir info"
      from extract_entries_ready [OF pre i] f have "isfile sk (entry_target dest info)"
        and "entry_target dest info \<noteq> []"
        by (simp_all add: ready_def Let_def)
      then have "sk (entry_target dest info) \<noteq> None"
        by (auto simp: isfile_def lookup_def split: option.splits)
      with extract_entry_failure_frame [OF st, of "entry_target dest info"]
      show "s' (entry_target dest info) = sk (entry_target dest info)" by blast
    qed
    with ready_extract_entries [OF rd] have again: "extract_entries dest pre s' = (None, s')"
      by simp
    have "extract_entries dest infos s' = (Some e, s')"
      unfolding dec extract_entries_append again
      using extract_entry_failure_again [OF st] by simp
    with Pair Some show ?thesis by simp
  qed
qed


lemma isfile_not_isdir: "isfile s p \<Longrightarrow> \<not> isdir s p"
  by (auto simp: isfile_def isdir_def split: option.splits node.splits)

lemma strict_prefix_butlast: "strict_prefix p t \<Longrightarrow> prefix p (butlast t)"
  by (metis append_butlast_last_id prefix_snoc strict_prefix_def prefix_bot.extremum_uniqueI
      strict_prefixE')








lemma wf_fs_update:
  assumes "wf_fs s" and "p \<noteq> []" and "isdir s (butlast p)" and "s p \<noteq> Some Dir"
  shows "wf_fs (s(p \<mapsto> n))"
  unfolding wf_fs_def
proof (intro allI impI)
  fix q assume q: "q \<noteq> [] \<and> (s(p \<mapsto> n)) q \<noteq> None"
  have par: "isdir s (butlast q)"
  proof (cases "q = p")
    case True
    with assms(3) show ?thesis by simp
  next
    case False
    with q assms(1) show ?thesis by (simp add: wf_fs_def)
  qed
  have "butlast q \<noteq> p"
  proof
    assume "butlast q = p"
    with par assms(2,4) show False by (simp add: isdir_def lookup_def)
  qed
  with par show "isdir (s(p \<mapsto> n)) (butlast q)"
    by (auto simp: isdir_def lookup_def split: if_splits)
qed

lemma mkdir_wf: "wf_fs s \<Longrightarrow> wf_fs (snd (mkdir p s))"
proof -
  assume w: "wf_fs s"
  obtain r s' where m: "mkdir p s = (r, s')" by (cases "mkdir p s")
  from mkdir_cases [OF m] w have "wf_fs s'" by (auto intro: wf_fs_update)
  with m show ?thesis by simp
qed

lemma write_file_wf: "wf_fs s \<Longrightarrow> wf_fs (snd (write_file p b s))"
proof -
  assume w: "wf_fs s"
  obtain r s' where m: "write_file p b s = (r, s')" by (cases "write_file p b s")
  from write_file_cases [OF m] w have "wf_fs s'" by (auto intro: wf_fs_update)
  with m show ?thesis by simp
qed

lemma makedirs_wf: "wf_fs s \<Longrightarrow> wf_fs (snd (makedirs name s))"
proof (induction name s rule: makedirs.induct)
  case (1 name s)
  show ?case
  proof (cases "name \<noteq> [] \<and> \<not> path_exists s (butlast name)")
    case False
    then have "makedirs name s = mkdir name s" using makedirs_leaf [of name s] by blast
    with mkdir_wf [OF "1.prems"] show ?thesis by simp
  next
    case True
    obtain r1 s1 where up: "makedirs (butlast name) s = (r1, s1)"
      by (cases "makedirs (butlast name) s")
    from "1.IH" [OF True "1.prems"] up have w1: "wf_fs s1" by simp
    from True up have "makedirs name s = mkdir name s1 \<or> makedirs name s = (r1, s1)"
      by (auto simp: makedirs_rec split: option.splits)
    with w1 mkdir_wf [OF w1, of name] show ?thesis by auto
  qed
qed

lemma extract_target_wf: "wf_fs s \<Longrightarrow> wf_fs (snd (extract_target i t s))"
  using mkdir_wf [of s t] write_file_wf [of s t]
  by (auto simp: extract_target_def split: option.splits)

lemma extract_entry_wf: "wf_fs s \<Longrightarrow> wf_fs (snd (extract_entry dest info s))"
proof -
  assume w: "wf_fs s"
  obtain r1 s1 where up: "makedirs (butlast (entry_target dest info)) s = (r1, s1)"
    by (cases "makedirs (butlast (entry_target dest info)) s")
  with makedirs_wf [OF w, of "butlast (entry_target dest info)"] have w1: "wf_fs s1" by simp
  show ?thesis
    using w w1 up extract_target_wf
    by (auto simp: extract_entry_def extract_member_def entry_target_def Let_def
             split: option.splits)
qed

lemma extract_entries_wf: "wf_fs s \<Longrightarrow> wf_fs (snd (extract_entries dest infos s))"
proof (induction infos arbitrary: s)
  case Nil
  then show ?case by simp
next
  case (Cons a infos)
  obtain r1 s1 where st: "extract_entry dest a s = (r1, s1)"
    by (cases "extract_entry dest a s")
  with extract_entry_wf [OF Cons.prems, of dest a] have "wf_fs s1" by simp
  with Cons.IH [of s1] st show ?case by (cases r1) auto
qed

lemma wf_fs_ancestors:
  "wf_fs s \<Longrightarrow> path_exists s (q @ r) \<Longrightarrow> r \<noteq> [] \<Longrightarrow> isdir s q"
proof (induction r rule: rev_induct)
  case Nil
  then show ?case by simp
next
  case (snoc x r)
  from snoc.prems(2) have "s (q @ r @ [x]) \<noteq> None"
    by (simp add: path_exists_def lookup_def)
  with snoc.prems(1) have d: "isdir s (butlast (q @ r @ [x]))"
    unfolding wf_fs_def by (metis append_is_Nil_conv not_Cons_self2)
  have "butlast (q @ r @ [x]) = q @ r" by (simp add: butlast_append)
  with d have d': "isdir s (q @ r)" by simp
  show ?case
  proof (cases "r = []")
    case True
    with d' show ?thesis by simp
  next
    case False
    from snoc.IH [OF snoc.prems(1) isdir_path_exists [OF d'] False] show ?thesis .
  qed
qed

lemma split_sep_not_Nil: "split_sep n \<noteq> []"
  by (induction n) (auto split: list.splits)

lemma split_sep_no_sep: "c \<in> set (split_sep n) \<Longrightarrow> CHR ''/'' \<notin> set c"
proof (induction n arbitrary: c)
  case Nil
  then show ?case by simp
next
  case (Cons a n)
  show ?case
  proof (cases "a = CHR ''/''")
    case True
    with Cons show ?thesis by auto
  next
    case False
    obtain w ws where sp: "split_sep n = w # ws"
      using split_sep_not_Nil [of n] by (cases "split_sep n") auto
    with False Cons.prems have "c = a # w \<or> c \<in> set ws" by simp
    then show ?thesis using Cons.IH [of w] Cons.IH [of c] sp False by auto
  qed
qed

lemma split_sep_chars: "c \<in> set (split_sep n) \<Longrightarrow> set c \<subseteq> set n"
proof (induction n arbitrary: c)
  case Nil
  then show ?case by simp
next
  case (Cons a n)
  show ?case
  proof (cases "a = CHR ''/''")
    case True
    with Cons show ?thesis by auto
  next
    case False
    obtain w ws where sp: "split_sep n = w # ws"
      using split_sep_not_Nil [of n] by (cases "split_sep n") auto
    with False Cons.prems have "c = a # w \<or> c \<in> set ws" by simp
    then show ?thesis using Cons.IH [of w] Cons.IH [of c] sp by auto
  qed
qed

lemma replace_backslash_free: "CHR 0x5C \<notin> set (replace_backslash n)"
  by (auto simp: replace_backslash_def)

lemma arcname_plain:
  assumes "c \<in> set (arcname (replace_backslash n))"
  shows "plain_part c"
proof -
  from assms have c: "c \<in> set (split_sep (replace_backslash n))" and v: "\<not> invalid_path_part c"
    by (auto simp: arcname_def)
  from split_sep_chars [OF c] replace_backslash_free [of n] have "CHR 0x5C \<notin> set c" by blast
  with split_sep_no_sep [OF c] v show ?thesis
    by (simp add: plain_part_def invalid_path_part_def)
qed

lemma prefix_entry_target:
  assumes "prefix q (entry_target dest info)"
  shows "prefix q dest \<or> (\<exists>rel. q = dest @ rel \<and> (\<forall>c\<in>set rel. plain_part c))"
proof -
  from assms have "prefix q (dest @ arcname (replace_backslash (filename info)))"
    by (simp add: entry_target_def targetpath_def)
  then consider "prefix q dest"
    | us where "q = dest @ us" "prefix us (arcname (replace_backslash (filename info)))"
    by (auto simp: prefix_append)
  then show ?thesis
  proof cases
    case 1
    then show ?thesis by simp
  next
    case 2
    then have "set us \<subseteq> set (arcname (replace_backslash (filename info)))"
      by (simp add: set_mono_prefix)
    with arcname_plain have "\<forall>c\<in>set us. plain_part c" by blast
    with 2 show ?thesis by blast
  qed
qed

lemma entry_target_under:
  "\<exists>rel. entry_target dest info = dest @ rel \<and> (\<forall>c\<in>set rel. plain_part c)"
  using arcname_plain by (auto simp: entry_target_def targetpath_def)

lemma extract_entries_under_dest:
  assumes "extract_entries dest infos s = (r, s')" and "s' q \<noteq> s q"
  shows "(s q = None \<and> s' q = Some Dir
           \<and> (prefix q dest \<or> (\<exists>rel. q = dest @ rel \<and> (\<forall>c\<in>set rel. plain_part c))))
       \<or> (s q \<noteq> Some Dir \<and> (\<exists>b. s' q = Some (File b))
           \<and> (\<exists>rel. q = dest @ rel \<and> (\<forall>c\<in>set rel. plain_part c)))"
  using extract_entries_frame [OF assms] prefix_entry_target [of q dest]
    entry_target_under [of dest]
  by (elim disjE conjE bexE exE) (blast, metis)

lemma isfile_path_exists: "isfile s p \<Longrightarrow> path_exists s p"
  by (auto simp: isfile_def path_exists_def split: option.splits)

lemma ready_path_exists:
  assumes "ready dest info s"
  shows "path_exists s (entry_target dest info)"
proof (cases "entry_is_dir info")
  case True
  with assms show ?thesis by (simp add: ready_def Let_def isdir_path_exists)
next
  case False
  with assms show ?thesis by (simp add: ready_def Let_def isfile_path_exists)
qed

lemma extract_zip_success:
  assumes "extract_zip rd deny wd zip_path dest s = (Inr n, s')"
    and "open_zip rd deny wd s zip_path = Inr infos"
  shows "extract_entries dest infos s = (None, s') \<and> n = length infos"
  using assms by (auto simp: extract_zip_def split: prod.splits option.splits)

lemma extract_zip_frame:
  assumes "extract_zip rd deny wd zip_path dest s = (r, s')" and "s' q \<noteq> s q"
  shows "\<exists>infos r1. extract_entries dest infos s = (r1, s')"
  using assms by (auto simp: extract_zip_def split: sum.splits prod.splits option.splits)

lemma split_sep_append:
  "split_sep (a @ CHR ''/'' # b) = split_sep a @ split_sep b"
proof (induction a)
  case Nil
  then show ?case by simp
next
  case (Cons c a)
  obtain w ws where sp: "split_sep a = w # ws"
    using split_sep_not_Nil [of a] by (cases "split_sep a") auto
  with Cons show ?case by simp
qed

lemma split_sep_name: "CHR ''/'' \<notin> set c \<Longrightarrow> split_sep c = [c]"
  by (induction c) auto

lemma split_sep_join:
  "comps \<noteq> [] \<Longrightarrow> \<forall>c\<in>set comps. CHR ''/'' \<notin> set c \<Longrightarrow> split_sep (join_sep comps) = comps"
proof (induction comps rule: join_sep.induct)
  case 1
  then show ?case by simp
next
  case (2 x)
  then show ?case by (simp add: split_sep_name)
next
  case (3 x y zs)
  then show ?case by (simp add: split_sep_append split_sep_name)
qed

lemma foldl_loc_names:
  "\<forall>c\<in>set parts. name_part c \<Longrightarrow> foldl loc_step cur parts = cur @ parts"
  by (induction parts arbitrary: cur) (auto simp: loc_step_def name_part_def)

lemma hd_not_sep: "c \<noteq> [] \<Longrightarrow> CHR ''/'' \<notin> set c \<Longrightarrow> hd c \<noteq> CHR ''/''"
  by (cases c) auto

lemma hd_join_sep:
  "comps \<noteq> [] \<Longrightarrow> \<forall>c\<in>set comps. c \<noteq> [] \<and> CHR ''/'' \<notin> set c \<Longrightarrow>
   join_sep comps \<noteq> [] \<and> hd (join_sep comps) \<noteq> CHR ''/''"
  by (induction comps rule: join_sep.induct) (auto simp: hd_append hd_not_sep)

lemma norm_step_inv:
  assumes "\<forall>c\<in>set acc. c \<noteq> [] \<and> c \<noteq> ''.'' \<and> CHR ''/'' \<notin> set c" and "CHR ''/'' \<notin> set c"
  shows "\<forall>c\<in>set (norm_step a acc c). c \<noteq> [] \<and> c \<noteq> ''.'' \<and> CHR ''/'' \<notin> set c"
  using assms by (auto simp: norm_step_def dest: in_set_butlastD)

lemma norm_step_loc:
  assumes "\<forall>c\<in>set acc. c \<noteq> [] \<and> c \<noteq> ''.'' \<and> CHR ''/'' \<notin> set c" and "a \<longrightarrow> start = []"
  shows "foldl loc_step start (norm_step a acc c) = loc_step (foldl loc_step start acc) c"
proof (cases "c = [] \<or> c = ''.''")
  case True
  then show ?thesis by (auto simp: norm_step_def loc_step_def)
next
  case False
  show ?thesis
  proof (cases "c \<noteq> ''..'' \<or> (\<not> a \<and> acc = []) \<or> (acc \<noteq> [] \<and> last acc = ''..'')")
    case True
    with False have "norm_step a acc c = acc @ [c]" by (simp add: norm_step_def)
    then show ?thesis by simp
  next
    case pop: False
    then have c: "c = ''..''" by simp
    show ?thesis
    proof (cases "acc = []")
      case True
      with pop have "a" by simp
      with assms(2) True c show ?thesis by (simp add: norm_step_def loc_step_def)
    next
      case ne: False
      with pop have l: "last acc \<noteq> ''..''" by simp
      from ne assms(1) have "last acc \<noteq> [] \<and> last acc \<noteq> ''.''" by (meson last_in_set)
      with l have st: "loc_step cur (last acc) = cur @ [last acc]" for cur
        by (simp add: loc_step_def)
      have "foldl loc_step start acc = foldl loc_step start (butlast acc @ [last acc])"
        using ne by simp
      also have "\<dots> = foldl loc_step start (butlast acc) @ [last acc]"
        by (simp add: st)
      finally have "butlast (foldl loc_step start acc) = foldl loc_step start (butlast acc)"
        by simp
      moreover from False pop ne c have "norm_step a acc c = butlast acc"
        by (simp add: norm_step_def)
      ultimately show ?thesis using c by (simp add: loc_step_def)
    qed
  qed
qed

lemma foldl_norm_loc:
  "\<forall>c\<in>set acc. c \<noteq> [] \<and> c \<noteq> ''.'' \<and> CHR ''/'' \<notin> set c \<Longrightarrow>
   \<forall>c\<in>set comps. CHR ''/'' \<notin> set c \<Longrightarrow> a \<longrightarrow> start = [] \<Longrightarrow>
   foldl loc_step start (foldl (norm_step a) acc comps)
     = foldl loc_step (foldl loc_step start acc) comps
   \<and> (\<forall>c\<in>set (foldl (norm_step a) acc comps). c \<noteq> [] \<and> c \<noteq> ''.'' \<and> CHR ''/'' \<notin> set c)"
proof (induction comps arbitrary: acc)
  case Nil
  then show ?case by simp
next
  case (Cons c comps)
  from Cons.prems(2) have c: "CHR ''/'' \<notin> set c" and cs: "\<forall>c\<in>set comps. CHR ''/'' \<notin> set c"
    by simp_all
  note inv = norm_step_inv [OF Cons.prems(1) c, of a]
  from Cons.IH [OF inv cs Cons.prems(3)] norm_step_loc [OF Cons.prems(1,3), of c]
  show ?case by simp
qed

lemma foldl_loc_empty: "foldl loc_step cur ([] # cs) = foldl loc_step cur cs"
  by (simp add: loc_step_def)

lemma locate_normpath: "locate wd (os_path_normpath p) = locate wd p"
proof (cases "p = []")
  case True
  then show ?thesis by (simp add: os_path_normpath_def locate_def loc_step_def)
next
  case False
  define n :: nat where
    "n = (if take 2 p = ''//'' \<and> take 3 p \<noteq> ''///'' then 2 else if hd p = CHR ''/'' then 1 else 0)"
  define start where "start = (if hd p = CHR ''/'' then [] else wd)"
  define comps where "comps = foldl (norm_step (0 < n)) [] (split_sep p)"
  define r where "r = replicate n CHR ''/'' @ join_sep comps"
  have np: "os_path_normpath p = (if r = [] then ''.'' else r)"
    using False by (simp add: os_path_normpath_def Let_def n_def comps_def r_def)
  have n0: "0 < n \<longleftrightarrow> hd p = CHR ''/''"
  proof (cases p)
    case Nil
    with False show ?thesis by simp
  next
    case (Cons x xs)
    then show ?thesis by (cases xs) (auto simp: n_def)
  qed
  have n2: "n \<le> 2" by (simp add: n_def)
  have lp: "locate wd p = foldl loc_step start (split_sep p)"
    using False by (simp add: locate_def start_def)
  have "0 < n \<longrightarrow> start = []" using n0 by (simp add: start_def)
  from foldl_norm_loc [of "[]" "split_sep p" "0 < n" start, OF _ _ this] split_sep_no_sep [of _ p]
  have eq: "foldl loc_step start comps = foldl loc_step start (split_sep p)"
    and inv: "\<forall>c\<in>set comps. c \<noteq> [] \<and> c \<noteq> ''.'' \<and> CHR ''/'' \<notin> set c"
    by (auto simp: comps_def)
  have sj: "foldl loc_step cur (split_sep (join_sep comps)) = foldl loc_step cur comps" for cur
  proof (cases "comps = []")
    case True
    then show ?thesis by (simp add: loc_step_def)
  next
    case False
    with inv show ?thesis by (simp add: split_sep_join)
  qed
  show ?thesis
  proof (cases "r = []")
    case True
    then have "n = 0" and "join_sep comps = []" by (simp_all add: r_def)
    with hd_join_sep [of comps] inv have "comps = []" by auto
    with eq lp have "locate wd p = start" by simp
    moreover from \<open>n = 0\<close> n0 have "start = wd" by (simp add: start_def)
    ultimately show ?thesis using np True by (simp add: locate_def loc_step_def)
  next
    case nr: False
    have "locate wd r = foldl loc_step start comps"
    proof (cases "n = 0")
      case True
      then have r: "r = join_sep comps" by (simp add: r_def)
      with nr have "comps \<noteq> []" by auto
      from hd_join_sep [OF this] inv r have "hd r \<noteq> CHR ''/''" by simp
      moreover from True n0 have "start = wd" by (simp add: start_def)
      ultimately show ?thesis using nr r sj by (simp add: locate_def)
    next
      case False
      with n2 consider "n = 1" | "n = 2" by linarith
      then show ?thesis
      proof cases
        case 1
        then have "r = CHR ''/'' # join_sep comps" by (simp add: r_def)
        moreover from 1 n0 have "start = []" by (simp add: start_def)
        ultimately show ?thesis using sj by (simp add: locate_def loc_step_def)
      next
        case 2
        then have "r = CHR ''/'' # CHR ''/'' # join_sep comps"
          by (simp add: r_def numeral_2_eq_2)
        moreover from 2 n0 have "start = []" by (simp add: start_def)
        ultimately show ?thesis using sj by (simp add: locate_def loc_step_def)
      qed
    qed
    with eq lp np nr show ?thesis by simp
  qed
qed

lemma locate_join:
  assumes "\<forall>c\<in>set parts. name_part c"
  shows "locate wd (os_path_join dest (join_sep parts)) = locate wd dest @ parts"
proof (cases "parts = []")
  case True
  show ?thesis
  proof (cases "dest = [] \<or> last dest = CHR ''/''")
    case True
    with \<open>parts = []\<close> show ?thesis by (simp add: os_path_join_def)
  next
    case False
    then have "os_path_join dest (join_sep parts) = dest @ ''/''"
      using \<open>parts = []\<close> by (simp add: os_path_join_def)
    moreover have "locate wd (dest @ ''/'') = locate wd dest"
      using False by (simp add: locate_def split_sep_append loc_step_def)
    ultimately show ?thesis using \<open>parts = []\<close> by simp
  qed
next
  case ne: False
  let ?b = "join_sep parts"
  from assms have pl: "\<forall>c\<in>set parts. c \<noteq> [] \<and> CHR ''/'' \<notin> set c"
    and sl: "\<forall>c\<in>set parts. CHR ''/'' \<notin> set c"
    by (simp_all add: name_part_def)
  from hd_join_sep [OF ne pl] have b: "?b \<noteq> []" "hd ?b \<noteq> CHR ''/''" by simp_all
  have sb: "split_sep ?b = parts" using split_sep_join [OF ne sl] .
  show ?thesis
  proof (cases "dest = []")
    case True
    with b sb foldl_loc_names [OF assms] show ?thesis
      by (simp add: os_path_join_def locate_def loc_step_def)
  next
    case dne: False
    show ?thesis
    proof (cases "last dest = CHR ''/''")
      case True
      with dne obtain d where d: "dest = d @ ''/''"
        by (metis append_butlast_last_id)
      with b have j: "os_path_join dest ?b = d @ CHR ''/'' # ?b"
        by (simp add: os_path_join_def)
      have h: "hd (d @ CHR ''/'' # ?b) = hd dest" using d by (cases d) auto
      have "locate wd (d @ CHR ''/'' # ?b)
          = foldl loc_step (if hd dest = CHR ''/'' then [] else wd) (split_sep d) @ parts"
        using h sb foldl_loc_names [OF assms]
        by (simp add: locate_def split_sep_append)
      moreover have "locate wd dest
          = foldl loc_step (if hd dest = CHR ''/'' then [] else wd) (split_sep d)"
        using dne d by (simp add: locate_def split_sep_append loc_step_def)
      ultimately show ?thesis using j by simp
    next
      case False
      with dne b have j: "os_path_join dest ?b = dest @ CHR ''/'' # ?b"
        by (simp add: os_path_join_def)
      have h: "hd (dest @ CHR ''/'' # ?b) = hd dest" using dne by (cases dest) auto
      show ?thesis
        using j h dne sb foldl_loc_names [OF assms]
        by (simp add: locate_def split_sep_append)
    qed
  qed
qed

lemma arcname_names: "\<forall>c\<in>set (arcname name). name_part c"
  using split_sep_no_sep [of _ name]
  by (auto simp: arcname_def name_part_def invalid_path_part_def)

lemma targetpath_strings:
  "locate wd (os_path_normpath (os_path_join dest (join_sep (arcname name))))
     = targetpath (locate wd dest) name"
  by (simp add: locate_normpath locate_join [OF arcname_names] targetpath_def)

section \<open>The claims\<close>

lemmas fs_defs = lookup_def path_exists_def isdir_def isfile_def parent_error_def mkdir_def
  write_file_def

lemmas zip_defs = is_dir_def invalid_path_part_def arcname_def targetpath_def
  extract_target_def extract_member_def replace_backslash_def extract_entry_def
  resolve_def open_zip_def extract_zip_def ex_deny_def Let_def

lemma ex_open_mixed:
  "open_zip ex_rd ex_deny [] ex_fs ''/zips/mixed.zip'' =
     Inr [\<lparr>filename = ''a/b.txt'', payload = Some ''one''\<rparr>,
          \<lparr>filename = ''c'' @ [CHR 0x5C] @ ''d.txt'', payload = Some ''two''\<rparr>]"
  by (simp add: fs_defs zip_defs ex_rd_def ex_fs_def)

lemma ex_extract_mixed:
  "extract_zip ex_rd ex_deny [] ''/zips/mixed.zip'' [''out''] ex_fs =
     (Inr 2, ex_fs([''out''] \<mapsto> Dir, [''out'', ''a''] \<mapsto> Dir,
                   [''out'', ''a'', ''b.txt''] \<mapsto> File ''one'',
                   [''out'', ''c''] \<mapsto> Dir,
                   [''out'', ''c'', ''d.txt''] \<mapsto> File ''two''))"
  by (simp add: fs_defs zip_defs ex_rd_def ex_fs_def makedirs.simps)

lemma ex_open_gfx:
  "open_zip ex_rd ex_deny [] ex_fs ''/zips/settlers4-assets.zip'' =
     Inr [\<lparr>filename = ''Siedler4'' @ [CHR 0x5C] @ ''Gfx'' @ [CHR 0x5C], payload = Some []\<rparr>,
          \<lparr>filename = ''Siedler4'' @ [CHR 0x5C] @ ''Gfx'' @ [CHR 0x5C] @ ''2.gh6'',
           payload = Some ''landscape''\<rparr>]"
  by (simp add: fs_defs zip_defs ex_rd_def ex_fs_def)

lemma ex_extract_gfx:
  "extract_zip ex_rd ex_deny [] ''/zips/settlers4-assets.zip'' [''proj'', ''public''] ex_fs =
     (Inr 2, ex_fs([''proj''] \<mapsto> Dir, [''proj'', ''public''] \<mapsto> Dir,
                   [''proj'', ''public'', ''Siedler4''] \<mapsto> Dir,
                   [''proj'', ''public'', ''Siedler4'', ''Gfx''] \<mapsto> Dir,
                   [''proj'', ''public'', ''Siedler4'', ''Gfx'', ''2.gh6'']
                     \<mapsto> File ''landscape''))"
  by (simp add: fs_defs zip_defs ex_rd_def ex_fs_def makedirs.simps)

text \<open>
  C1. Every entry is extracted under its rewritten name, each entry for itself:
  the name with every backslash replaced by a forward slash. After an extraction
  that returned, an entry stands at the destination followed by the components of
  its rewritten name, as a directory when that name ends in a slash and as a file
  otherwise; these components hold neither a slash nor a backslash; and nothing
  was created but ancestors of the destination and paths of such components below
  it: no file with a backslash in its name.
\<close>

theorem separator_normalization:
  assumes "extract_zip rd deny wd zip_path dest s = (Inr n, s')"
    and "open_zip rd deny wd s zip_path = Inr infos"
    and "info \<in> set infos"
  shows "replace_backslash (filename info)
           = map (\<lambda>c. if c = CHR 0x5C then CHR ''/'' else c) (filename info)
       \<and> (\<forall>c\<in>set (arcname (replace_backslash (filename info))). plain_part c)
       \<and> (if is_dir (info\<lparr>filename := replace_backslash (filename info)\<rparr>)
           then isdir s' (dest @ arcname (replace_backslash (filename info)))
           else isfile s' (dest @ arcname (replace_backslash (filename info))))
       \<and> (\<forall>q. s' q \<noteq> s q \<longrightarrow>
             prefix q dest \<or> (\<exists>rel. q = dest @ rel \<and> (\<forall>c\<in>set rel. plain_part c)))"
proof -
  from extract_zip_success [OF assms(1,2)] have run: "extract_entries dest infos s = (None, s')"
    by simp
  from extract_entries_ready [OF run assms(3)]
  have "if entry_is_dir info then isdir s' (entry_target dest info)
        else isfile s' (entry_target dest info)"
    by (simp add: ready_def Let_def)
  then have mat: "if is_dir (info\<lparr>filename := replace_backslash (filename info)\<rparr>)
           then isdir s' (dest @ arcname (replace_backslash (filename info)))
           else isfile s' (dest @ arcname (replace_backslash (filename info)))"
    unfolding entry_is_dir_def entry_target_def targetpath_def .
  have fr: "\<forall>q. s' q \<noteq> s q \<longrightarrow>
             prefix q dest \<or> (\<exists>rel. q = dest @ rel \<and> (\<forall>c\<in>set rel. plain_part c))"
    using extract_entries_under_dest [OF run] by blast
  have pl: "\<forall>c\<in>set (arcname (replace_backslash (filename info))). plain_part c"
    using arcname_plain by blast
  from mat fr pl show ?thesis by (simp add: replace_backslash_def)
qed

theorem separator_normalization_witness:
  "isfile (snd (extract_zip ex_rd ex_deny [] ''/zips/mixed.zip'' [''out''] ex_fs))
          [''out'', ''a'', ''b.txt'']
   \<and> isfile (snd (extract_zip ex_rd ex_deny [] ''/zips/mixed.zip'' [''out''] ex_fs))
          [''out'', ''c'', ''d.txt'']
   \<and> snd (extract_zip ex_rd ex_deny [] ''/zips/mixed.zip'' [''out''] ex_fs)
          [''out'', ''c'' @ [CHR 0x5C] @ ''d.txt''] = None
   \<and> isdir (snd (extract_zip ex_rd ex_deny [] ''/zips/settlers4-assets.zip'' [''proj'', ''public''] ex_fs))
          [''proj'', ''public'', ''Siedler4'', ''Gfx'']
   \<and> isfile (snd (extract_zip ex_rd ex_deny [] ''/zips/settlers4-assets.zip'' [''proj'', ''public''] ex_fs))
          [''proj'', ''public'', ''Siedler4'', ''Gfx'', ''2.gh6'']"
proof -
  let ?m1 = "\<lparr>filename = ''a/b.txt'', payload = Some ''one''\<rparr>"
  let ?m2 = "\<lparr>filename = ''c'' @ [CHR 0x5C] @ ''d.txt'', payload = Some ''two''\<rparr>"
  let ?g1 = "\<lparr>filename = ''Siedler4'' @ [CHR 0x5C] @ ''Gfx'' @ [CHR 0x5C], payload = Some []\<rparr>"
  let ?g2 = "\<lparr>filename = ''Siedler4'' @ [CHR 0x5C] @ ''Gfx'' @ [CHR 0x5C] @ ''2.gh6'',
              payload = Some ''landscape''\<rparr>"
  have m1: "?m1 \<in> set [?m1, ?m2]" and m2: "?m2 \<in> set [?m1, ?m2]"
    and g1: "?g1 \<in> set [?g1, ?g2]" and g2: "?g2 \<in> set [?g1, ?g2]"
    by simp_all
  note n = conjunct1 [OF conjunct2 [OF conjunct2]]
  have a: "isfile (snd (extract_zip ex_rd ex_deny [] ''/zips/mixed.zip'' [''out''] ex_fs))
          [''out'', ''a'', ''b.txt'']"
    using n [OF separator_normalization [OF ex_extract_mixed ex_open_mixed m1]]
    by (simp add: ex_extract_mixed is_dir_def arcname_def replace_backslash_def
        invalid_path_part_def)
  have b: "isfile (snd (extract_zip ex_rd ex_deny [] ''/zips/mixed.zip'' [''out''] ex_fs))
          [''out'', ''c'', ''d.txt'']"
    using n [OF separator_normalization [OF ex_extract_mixed ex_open_mixed m2]]
    by (simp add: ex_extract_mixed is_dir_def arcname_def replace_backslash_def
        invalid_path_part_def)
  have c: "snd (extract_zip ex_rd ex_deny [] ''/zips/mixed.zip'' [''out''] ex_fs)
          [''out'', ''c'' @ [CHR 0x5C] @ ''d.txt''] = None"
    unfolding ex_extract_mixed by (simp add: ex_fs_def)
  have d: "isdir (snd (extract_zip ex_rd ex_deny [] ''/zips/settlers4-assets.zip'' [''proj'', ''public''] ex_fs))
          [''proj'', ''public'', ''Siedler4'', ''Gfx'']"
    using n [OF separator_normalization [OF ex_extract_gfx ex_open_gfx g1]]
    by (simp add: ex_extract_gfx is_dir_def arcname_def replace_backslash_def
        invalid_path_part_def)
  have e: "isfile (snd (extract_zip ex_rd ex_deny [] ''/zips/settlers4-assets.zip'' [''proj'', ''public''] ex_fs))
          [''proj'', ''public'', ''Siedler4'', ''Gfx'', ''2.gh6'']"
    using n [OF separator_normalization [OF ex_extract_gfx ex_open_gfx g2]]
    by (simp add: ex_extract_gfx is_dir_def arcname_def replace_backslash_def
        invalid_path_part_def)
  from a b c d e show ?thesis by blast
qed

lemma ex_open_up:
  "open_zip ex_rd ex_deny [] ex_fs ''/zips/up.zip'' =
     Inr [\<lparr>filename = ''..'' @ [CHR 0x5C] @ ''evil.txt'', payload = Some ''x''\<rparr>]"
  by (simp add: fs_defs zip_defs ex_rd_def ex_fs_def)

lemma ex_extract_up:
  "extract_zip ex_rd ex_deny [] ''/zips/up.zip'' [''out''] ex_fs =
     (Inr 1, ex_fs([''out''] \<mapsto> Dir, [''out'', ''evil.txt''] \<mapsto> File ''x''))"
  by (simp add: fs_defs zip_defs ex_rd_def ex_fs_def makedirs.simps)

text \<open>
  C2, as stated, fails: an archive whose only entry is \<^verbatim>\<open>..\evil.txt\<close> is
  extracted without an error, the count 1 is returned and the file written at
  \<^verbatim>\<open>out/evil.txt\<close>.
\<close>

theorem traversal_entry_extracted:
  "''..'' \<in> set (split_sep (replace_backslash (''..'' @ [CHR 0x5C] @ ''evil.txt'')))
   \<and> open_zip ex_rd ex_deny [] ex_fs ''/zips/up.zip'' =
       Inr [\<lparr>filename = ''..'' @ [CHR 0x5C] @ ''evil.txt'', payload = Some ''x''\<rparr>]
   \<and> extract_zip ex_rd ex_deny [] ''/zips/up.zip'' [''out''] ex_fs =
       (Inr 1, ex_fs([''out''] \<mapsto> Dir, [''out'', ''evil.txt''] \<mapsto> File ''x''))"
  using ex_open_up ex_extract_up by (simp add: replace_backslash_def)

text \<open>
  C2, as amended. \<^verbatim>\<open>extract_zip\<close> has no check that rejects an entry: the empty,
  \<^verbatim>\<open>.\<close> and \<^verbatim>\<open>..\<close> components of the rewritten name are dropped, and the entry is
  extracted at what is left, below the destination. Whether the extraction returns
  or raises, every node it creates or rewrites lies at the destination followed by
  plain names, but for the missing ancestors of the destination, created as
  directories; when it returns, every entry stands at its path without the dropped
  components.
\<close>

theorem no_write_outside_destination:
  assumes "extract_zip rd deny wd zip_path dest s = (r, s')"
  shows "(\<forall>q. s' q \<noteq> s q \<longrightarrow>
            (\<exists>rel. q = dest @ rel \<and> (\<forall>c\<in>set rel. plain_part c))
            \<or> (prefix q dest \<and> s q = None \<and> s' q = Some Dir))
       \<and> (\<forall>n infos info. r = Inr n \<and> open_zip rd deny wd s zip_path = Inr infos \<and> info \<in> set infos
            \<longrightarrow> path_exists s'
                  (dest @ filter (\<lambda>x. x \<noteq> [] \<and> x \<noteq> ''.'' \<and> x \<noteq> ''..'')
                            (split_sep (replace_backslash (filename info)))))"
proof (intro conjI allI impI)
  fix q assume ch: "s' q \<noteq> s q"
  from extract_zip_frame [OF assms ch] obtain infos r1 where
    "extract_entries dest infos s = (r1, s')" by blast
  from extract_entries_under_dest [OF this ch]
  show "(\<exists>rel. q = dest @ rel \<and> (\<forall>c\<in>set rel. plain_part c))
            \<or> (prefix q dest \<and> s q = None \<and> s' q = Some Dir)" by blast
next
  fix n infos info
  assume a: "r = Inr n \<and> open_zip rd deny wd s zip_path = Inr infos \<and> info \<in> set infos"
  with assms extract_zip_success have "extract_entries dest infos s = (None, s')" by blast
  from extract_entries_ready [OF this] a have "ready dest info s'" by blast
  then have "path_exists s' (entry_target dest info)"
    by (rule ready_path_exists)
  then show "path_exists s'
                  (dest @ filter (\<lambda>x. x \<noteq> [] \<and> x \<noteq> ''.'' \<and> x \<noteq> ''..'')
                            (split_sep (replace_backslash (filename info))))"
    by (simp add: entry_target_def targetpath_def arcname_def invalid_path_part_def)
qed

theorem no_write_outside_destination_witness:
  "(\<exists>rel. [''out'', ''evil.txt''] = [''out''] @ rel \<and> list_all plain_part rel)
   \<and> path_exists (snd (extract_zip ex_rd ex_deny [] ''/zips/up.zip'' [''out''] ex_fs))
        [''out'', ''evil.txt'']"
proof -
  let ?s' = "ex_fs([''out''] \<mapsto> Dir, [''out'', ''evil.txt''] \<mapsto> File ''x'')"
  let ?i = "\<lparr>filename = ''..'' @ [CHR 0x5C] @ ''evil.txt'', payload = Some ''x''\<rparr>"
  note t = no_write_outside_destination [OF ex_extract_up]
  have ch: "?s' [''out'', ''evil.txt''] \<noteq> ex_fs [''out'', ''evil.txt'']"
    by (simp add: ex_fs_def)
  have "\<not> prefix [''out'', ''evil.txt''] [''out'']" by simp
  with conjunct1 [OF t, rule_format, OF ch]
  have a: "\<exists>rel. [''out'', ''evil.txt''] = [''out''] @ rel \<and> list_all plain_part rel"
    by (simp add: list_all_iff)
  have "?i \<in> set [?i]" by simp
  with conjunct2 [OF t, rule_format, of 1 "[?i]" ?i] ex_open_up
  have "path_exists ?s' [''out'', ''evil.txt'']"
    by (simp add: replace_backslash_def)
  with a show ?thesis by (simp add: ex_extract_up)
qed






text \<open>
  C4. Extracting the same archive a second time into the same destination gives
  the outcome and the file system of the first time (the archive file being the
  same for both, that is, not overwritten by its own extraction); and the write
  of a file entry replaces the file that is at its target.
\<close>

theorem extract_twice:
  assumes "open_zip rd deny wd (snd (extract_zip rd deny wd zip_path dest s)) zip_path
             = open_zip rd deny wd s zip_path"
  shows "extract_zip rd deny wd zip_path dest (snd (extract_zip rd deny wd zip_path dest s))
           = extract_zip rd deny wd zip_path dest s
       \<and> (\<forall>info b. \<not> entry_is_dir info \<and> payload info = Some b
              \<and> isfile s (entry_target dest info) \<and> isdir s (butlast (entry_target dest info))
            \<longrightarrow> extract_entry dest info s = (None, s(entry_target dest info \<mapsto> File b)))"
proof (intro conjI allI impI)
  show "extract_zip rd deny wd zip_path dest (snd (extract_zip rd deny wd zip_path dest s))
           = extract_zip rd deny wd zip_path dest s"
  proof (cases "open_zip rd deny wd s zip_path")
    case (Inl e)
    then show ?thesis by (simp add: extract_zip_def)
  next
    case (Inr infos)
    obtain r s' where run: "extract_entries dest infos s = (r, s')"
      by (cases "extract_entries dest infos s")
    with Inr have fst: "snd (extract_zip rd deny wd zip_path dest s) = s'"
      by (cases r) (simp_all add: extract_zip_def)
    from extract_entries_idem [of dest infos s] run
    have "extract_entries dest infos s' = (r, s')" by simp
    moreover from assms fst Inr have "open_zip rd deny wd s' zip_path = Inr infos" by simp
    ultimately show ?thesis using Inr run fst by (simp add: extract_zip_def)
  qed
next
  fix info b
  assume a: "\<not> entry_is_dir info \<and> payload info = Some b
              \<and> isfile s (entry_target dest info) \<and> isdir s (butlast (entry_target dest info))"
  then have "entry_target dest info \<noteq> []" by (auto simp: isfile_def lookup_def)
  with a have "ready dest info s" by (simp add: ready_def Let_def isdir_path_exists)
  from ready_extract_entry [OF this] a
  show "extract_entry dest info s = (None, s(entry_target dest info \<mapsto> File b))"
    by (simp add: rewrite_def)
qed

theorem extract_twice_witness:
  "extract_zip ex_rd ex_deny [] ''/zips/settlers4-assets.zip'' [''proj'', ''public'']
     (snd (extract_zip ex_rd ex_deny [] ''/zips/settlers4-assets.zip'' [''proj'', ''public''] ex_fs))
   = extract_zip ex_rd ex_deny [] ''/zips/settlers4-assets.zip'' [''proj'', ''public''] ex_fs"
proof -
  have "open_zip ex_rd ex_deny []
          (snd (extract_zip ex_rd ex_deny [] ''/zips/settlers4-assets.zip'' [''proj'', ''public''] ex_fs))
          ''/zips/settlers4-assets.zip''
        = open_zip ex_rd ex_deny [] ex_fs ''/zips/settlers4-assets.zip''"
    unfolding ex_extract_gfx ex_open_gfx
    by (simp add: fs_defs zip_defs ex_rd_def ex_fs_def)
  from conjunct1 [OF extract_twice [OF this]] show ?thesis .
qed

lemma ex_open_twice:
  "open_zip ex_rd ex_deny [] ex_fs ''/zips/twice.zip'' =
     Inr ([\<lparr>filename = ''a'' @ [CHR 0x5C] @ ''b.txt'', payload = Some ''first''\<rparr>]
          @ \<lparr>filename = ''a/b.txt'', payload = Some ''second''\<rparr> # [])"
  by (simp add: fs_defs zip_defs ex_rd_def ex_fs_def)

lemma ex_extract_twice:
  "extract_zip ex_rd ex_deny [] ''/zips/twice.zip'' [''out''] ex_fs =
     (Inr 2, ex_fs([''out''] \<mapsto> Dir, [''out'', ''a''] \<mapsto> Dir,
                   [''out'', ''a'', ''b.txt''] \<mapsto> File ''second''))"
  by (simp add: fs_defs zip_defs ex_rd_def ex_fs_def makedirs.simps)

text \<open>
  C5. Where several entries are sent to the same target, the last one wins: after
  an extraction that returned, the target of a file entry that no later entry is
  sent to holds the payload of that entry.
\<close>

theorem last_entry_wins:
  assumes "extract_zip rd deny wd zip_path dest s = (Inr n, s')"
    and "open_zip rd deny wd s zip_path = Inr (pre @ info # post)"
    and "\<not> entry_is_dir info"
    and "\<forall>i\<in>set post. entry_target dest i \<noteq> entry_target dest info"
  shows "\<exists>b. payload info = Some b \<and> s' (entry_target dest info) = Some (File b)"
proof -
  from extract_zip_success [OF assms(1,2)]
  have "extract_entries dest (pre @ info # post) s = (None, s')" by simp
  from extract_entries_last_wins [OF this assms(3)] assms(4) show ?thesis by blast
qed

theorem last_entry_wins_witness:
  "entry_target [''out''] \<lparr>filename = ''a'' @ [CHR 0x5C] @ ''b.txt'', payload = Some ''first''\<rparr>
     = entry_target [''out''] \<lparr>filename = ''a/b.txt'', payload = Some ''second''\<rparr>
   \<and> snd (extract_zip ex_rd ex_deny [] ''/zips/twice.zip'' [''out''] ex_fs) [''out'', ''a'', ''b.txt'']
     = Some (File ''second'')"
proof -
  let ?i = "\<lparr>filename = ''a/b.txt'', payload = Some ''second''\<rparr>"
  have d: "\<not> entry_is_dir ?i"
    by (simp add: entry_is_dir_def is_dir_def replace_backslash_def)
  have l: "\<forall>i\<in>set []. entry_target [''out''] i \<noteq> entry_target [''out''] ?i" by simp
  have t: "entry_target [''out''] ?i = [''out'', ''a'', ''b.txt'']"
    by (simp add: entry_target_def targetpath_def arcname_def replace_backslash_def
        invalid_path_part_def)
  from last_entry_wins [OF ex_extract_twice ex_open_twice d l]
  have "(ex_fs([''out''] \<mapsto> Dir, [''out'', ''a''] \<mapsto> Dir,
              [''out'', ''a'', ''b.txt''] \<mapsto> File ''second'')) [''out'', ''a'', ''b.txt'']
        = Some (File ''second'')"
    unfolding t by simp
  then show ?thesis
    unfolding ex_extract_twice
    by (simp add: entry_target_def targetpath_def arcname_def replace_backslash_def
        invalid_path_part_def)
qed

text \<open>
  C6. The target of an entry depends on its stored name and on the destination
  only: two entries of the same stored name, in any two archives, at any place
  among other entries and over any two file systems, are found at the same path
  \<open>targetpath dest (replace_backslash name)\<close> after extraction, as a directory in
  both or in neither.
\<close>

theorem target_is_pure:
  assumes "extract_zip rd1 deny1 wd1 zip1 dest s1 = (Inr n1, s1')"
    and "open_zip rd1 deny1 wd1 s1 zip1 = Inr (pre1 @ i1 # post1)"
    and "extract_zip rd2 deny2 wd2 zip2 dest s2 = (Inr n2, s2')"
    and "open_zip rd2 deny2 wd2 s2 zip2 = Inr (pre2 @ i2 # post2)"
    and "filename i1 = filename i2"
  shows "path_exists s1' (targetpath dest (replace_backslash (filename i1)))
       \<and> path_exists s2' (targetpath dest (replace_backslash (filename i1)))
       \<and> (isdir s1' (targetpath dest (replace_backslash (filename i1)))
            \<longleftrightarrow> isdir s2' (targetpath dest (replace_backslash (filename i1))))"
proof -
  let ?t = "targetpath dest (replace_backslash (filename i1))"
  have t: "entry_target dest i1 = ?t" "entry_target dest i2 = ?t"
    using assms(5) by (simp_all add: entry_target_def)
  have d: "entry_is_dir i1 = entry_is_dir i2"
    using assms(5) by (simp add: entry_is_dir_def is_dir_def)
  from extract_zip_success [OF assms(1,2)]
  have "extract_entries dest (pre1 @ i1 # post1) s1 = (None, s1')" by simp
  from extract_entries_ready [OF this, of i1] have r1: "ready dest i1 s1'" by simp
  from extract_zip_success [OF assms(3,4)]
  have "extract_entries dest (pre2 @ i2 # post2) s2 = (None, s2')" by simp
  from extract_entries_ready [OF this, of i2] have r2: "ready dest i2 s2'" by simp
  have k: "isfile s p \<Longrightarrow> \<not> isdir s p" for s p
    by (auto simp: isfile_def isdir_def split: option.splits node.splits)
  from r1 r2 d t k have "isdir s1' ?t \<longleftrightarrow> isdir s2' ?t"
    by (cases "entry_is_dir i1") (simp_all add: ready_def Let_def)
  with ready_path_exists [OF r1] ready_path_exists [OF r2] t show ?thesis by simp
qed

theorem target_is_pure_witness:
  "path_exists (snd (extract_zip ex_rd ex_deny [] ''/zips/mixed.zip'' [''out''] ex_fs))
     (targetpath [''out''] (replace_backslash ''a/b.txt''))
   \<and> path_exists (snd (extract_zip ex_rd ex_deny [] ''/zips/twice.zip'' [''out''] ex_fs))
     (targetpath [''out''] (replace_backslash ''a/b.txt''))
   \<and> targetpath [''out''] (replace_backslash ''a/b.txt'') = [''out'', ''a'', ''b.txt'']"
proof -
  have o1: "open_zip ex_rd ex_deny [] ex_fs ''/zips/mixed.zip'' =
     Inr ([] @ \<lparr>filename = ''a/b.txt'', payload = Some ''one''\<rparr>
          # [\<lparr>filename = ''c'' @ [CHR 0x5C] @ ''d.txt'', payload = Some ''two''\<rparr>])"
    using ex_open_mixed by simp
  have "filename \<lparr>filename = ''a/b.txt'', payload = Some ''one''\<rparr>
      = filename \<lparr>filename = ''a/b.txt'', payload = Some ''second''\<rparr>" by simp
  from target_is_pure [OF ex_extract_mixed o1 ex_extract_twice ex_open_twice this]
  show ?thesis
    by (simp add: ex_extract_mixed ex_extract_twice targetpath_def arcname_def
        replace_backslash_def invalid_path_part_def)
qed

lemma ex_open_empty: "open_zip ex_rd ex_deny [] ex_fs ''/zips/empty.zip'' = Inr []"
  by (simp add: fs_defs zip_defs ex_rd_def ex_fs_def)

text \<open>
  C8. An archive with no entries: \<^verbatim>\<open>extract_zip\<close> raises nothing, returns 0 and
  leaves the file system as it was (not even the destination root is created).
\<close>

theorem empty_archive:
  "open_zip rd deny wd s zip_path = Inr [] \<Longrightarrow> extract_zip rd deny wd zip_path dest s = (Inr 0, s)"
  by (simp add: extract_zip_def)

theorem empty_archive_witness:
  "open_zip ex_rd ex_deny [] ex_fs ''/zips/empty.zip'' = Inr [] \<and>
   extract_zip ex_rd ex_deny [] ''/zips/empty.zip'' [''proj'', ''public''] ex_fs = (Inr 0, ex_fs)"
  using empty_archive [OF ex_open_empty] ex_open_empty by simp

lemmas main_defs = main_def main_dir_def main_hd_def main_finish_def expanduser_def
  rstrip_sep_def os_path_isdir_def os_path_isfile_def os_path_join_def MAIN_ZIP_def HD_ZIP_def
  PUBLIC_DIR_def SIEDLER_DIR_def SCRIPT_DIR_def strip_def is_space_def




lemma ex_main_bad:
  "main ex_rd (ex_env [''/bad''] (Some ''/home/u'')) ex_disk =
     (Uncaught BadZipFile, [''Extracting settlers4-assets.zip -> public/Siedler4/''], ex_disk)"
  by (simp add: main_defs fs_defs zip_defs ex_env_def ex_disk_def ex_rd_def)






text \<open>
  C9. Without a directory argument, with an argument that is no directory, or
  without the primary archive in it, \<^verbatim>\<open>main\<close> exits with status 1 and a message,
  and the file system is untouched. With the primary archive extracted and the
  secondary absent, the run goes on to the indexer, and ends with status 0 when
  the indexer does.
\<close>

theorem usage_errors:
  "(length (argv E) < 2 \<longrightarrow>
      (\<exists>msg. main rd E s = (Exit 1, msg, s) \<and> msg \<noteq> []))
   \<and> (2 \<le> length (argv E) \<and> \<not> os_path_isdir (cwd E) s (expanduser E (argv E ! 1)) \<longrightarrow>
        main rd E s = (Exit 1, [''Not a directory: '' @ expanduser E (argv E ! 1)], s))
   \<and> (2 \<le> length (argv E) \<and> os_path_isdir (cwd E) s (expanduser E (argv E ! 1))
        \<and> \<not> os_path_isfile (cwd E) s (os_path_join (expanduser E (argv E ! 1)) MAIN_ZIP) \<longrightarrow>
        main rd E s
          = (Exit 1, [MAIN_ZIP @ '' not found in '' @ expanduser E (argv E ! 1)], s))
   \<and> (\<forall>n s1. 2 \<le> length (argv E) \<and> os_path_isdir (cwd E) s (expanduser E (argv E ! 1))
        \<and> os_path_isfile (cwd E) s (os_path_join (expanduser E (argv E ! 1)) MAIN_ZIP)
        \<and> extract_zip rd (read_denied E) (cwd E) (os_path_join (expanduser E (argv E ! 1)) MAIN_ZIP)
              (PUBLIC_DIR E) s = (Inr n, s1)
        \<and> \<not> os_path_isfile (cwd E) s1 (os_path_join (expanduser E (argv E ! 1)) HD_ZIP) \<longrightarrow>
        main rd E s
          = main_finish E [''Extracting '' @ MAIN_ZIP @ '' -> public/Siedler4/'',
                          ''  '' @ show_nat n @ '' entries extracted''] s1
        \<and> (\<forall>res s2. run_node E (SCRIPT_DIR E @ [''generate-file-list.js'']) s1 = (Inr res, s2)
               \<and> returncode res = 0 \<longrightarrow>
             fst (main rd E s) = Returned \<and> exit_status (fst (main rd E s)) = 0))"
proof (intro conjI allI impI)
  assume "length (argv E) < 2"
  then show "\<exists>msg. main rd E s = (Exit 1, msg, s) \<and> msg \<noteq> []"
    by (simp add: main_def)
next
  assume "2 \<le> length (argv E) \<and> \<not> os_path_isdir (cwd E) s (expanduser E (argv E ! 1))"
  then show "main rd E s = (Exit 1, [''Not a directory: '' @ expanduser E (argv E ! 1)], s)"
    by (simp add: main_def main_dir_def)
next
  assume "2 \<le> length (argv E) \<and> os_path_isdir (cwd E) s (expanduser E (argv E ! 1))
        \<and> \<not> os_path_isfile (cwd E) s (os_path_join (expanduser E (argv E ! 1)) MAIN_ZIP)"
  then show "main rd E s
          = (Exit 1, [MAIN_ZIP @ '' not found in '' @ expanduser E (argv E ! 1)], s)"
    by (simp add: main_def main_dir_def Let_def)
next
  fix n s1
  assume a: "2 \<le> length (argv E) \<and> os_path_isdir (cwd E) s (expanduser E (argv E ! 1))
        \<and> os_path_isfile (cwd E) s (os_path_join (expanduser E (argv E ! 1)) MAIN_ZIP)
        \<and> extract_zip rd (read_denied E) (cwd E) (os_path_join (expanduser E (argv E ! 1)) MAIN_ZIP)
              (PUBLIC_DIR E) s = (Inr n, s1)
        \<and> \<not> os_path_isfile (cwd E) s1 (os_path_join (expanduser E (argv E ! 1)) HD_ZIP)"
  then show m: "main rd E s
          = main_finish E [''Extracting '' @ MAIN_ZIP @ '' -> public/Siedler4/'',
                          ''  '' @ show_nat n @ '' entries extracted''] s1"
    by (simp add: main_def main_dir_def main_hd_def Let_def)
  fix res s2
  assume "run_node E (SCRIPT_DIR E @ [''generate-file-list.js'']) s1 = (Inr res, s2)
               \<and> returncode res = 0"
  then have "fst (main rd E s) = Returned"
    unfolding m by (simp add: main_finish_def Let_def)
  then show "fst (main rd E s) = Returned" and "exit_status (fst (main rd E s)) = 0"
    by simp_all
qed

lemma ex_main_none:
  "main ex_rd (ex_env [] (Some ''/home/u'')) ex_disk =
     (Exit 1,
      [''Usage: python3 scripts/import-game-files.py <directory>'', [],
       ''  Looks for settlers4-assets.zip (required) and settlers4-hd-assets.zip (optional)'',
       ''  in the given directory and extracts them into public/Siedler4/.''],
      ex_disk)"
  by (simp add: main_defs ex_env_def)

lemma ex_extract_disk:
  "extract_zip ex_rd ex_deny [''proj''] ''/zips/settlers4-assets.zip'' [''proj'', ''public''] ex_disk =
     (Inr 2, ex_disk([''proj'', ''public''] \<mapsto> Dir,
                     [''proj'', ''public'', ''Siedler4''] \<mapsto> Dir,
                     [''proj'', ''public'', ''Siedler4'', ''Gfx''] \<mapsto> Dir,
                     [''proj'', ''public'', ''Siedler4'', ''Gfx'', ''2.gh6'']
                       \<mapsto> File ''landscape''))"
  by (simp add: fs_defs zip_defs ex_rd_def ex_disk_def makedirs.simps)

theorem usage_errors_witness:
  "fst (main ex_rd (ex_env [] (Some ''/home/u'')) ex_disk) = Exit 1
   \<and> snd (snd (main ex_rd (ex_env [] (Some ''/home/u'')) ex_disk)) = ex_disk
   \<and> main ex_rd (ex_env [''/nowhere''] (Some ''/home/u'')) ex_disk
       = (Exit 1, [''Not a directory: /nowhere''], ex_disk)
   \<and> main ex_rd (ex_env [''/home''] (Some ''/home/u'')) ex_disk
       = (Exit 1, [''settlers4-assets.zip not found in /home''], ex_disk)
   \<and> fst (main ex_rd (ex_env [''/zips''] (Some ''/home/u'')) ex_disk) = Returned"
proof -
  note c1 = conjunct1
  note c2 = conjunct1 [OF conjunct2]
  note c3 = conjunct1 [OF conjunct2 [OF conjunct2]]
  note c4 = conjunct2 [OF conjunct2 [OF conjunct2]]
  have "\<exists>msg. main ex_rd (ex_env [] (Some ''/home/u'')) ex_disk = (Exit 1, msg, ex_disk)
          \<and> msg \<noteq> []"
    using c1 [OF usage_errors [where E = "ex_env [] (Some ''/home/u'')" and rd = ex_rd and s = ex_disk]]
    by (simp add: ex_env_def)
  then have a: "fst (main ex_rd (ex_env [] (Some ''/home/u'')) ex_disk) = Exit 1"
    and a': "snd (snd (main ex_rd (ex_env [] (Some ''/home/u'')) ex_disk)) = ex_disk"
    by auto
  have b: "main ex_rd (ex_env [''/nowhere''] (Some ''/home/u'')) ex_disk
       = (Exit 1, [''Not a directory: /nowhere''], ex_disk)"
    using c2 [OF usage_errors [where E = "ex_env [''/nowhere''] (Some ''/home/u'')" and rd = ex_rd
        and s = ex_disk]]
    by (simp add: main_defs fs_defs resolve_def ex_env_def ex_disk_def)
  have c: "main ex_rd (ex_env [''/home''] (Some ''/home/u'')) ex_disk
       = (Exit 1, [''settlers4-assets.zip not found in /home''], ex_disk)"
    using c3 [OF usage_errors [where E = "ex_env [''/home''] (Some ''/home/u'')" and rd = ex_rd
        and s = ex_disk]]
    by (simp add: main_defs fs_defs resolve_def ex_env_def ex_disk_def)
  let ?E = "ex_env [''/zips''] (Some ''/home/u'')"
  let ?s1 = "ex_disk([''proj'', ''public''] \<mapsto> Dir,
                     [''proj'', ''public'', ''Siedler4''] \<mapsto> Dir,
                     [''proj'', ''public'', ''Siedler4'', ''Gfx''] \<mapsto> Dir,
                     [''proj'', ''public'', ''Siedler4'', ''Gfx'', ''2.gh6'']
                       \<mapsto> File ''landscape'')"
  have ex: "expanduser ?E (argv ?E ! 1) = ''/zips''" "cwd ?E = [''proj'']"
    "PUBLIC_DIR ?E = [''proj'', ''public'']" "read_denied ?E = ex_deny" "2 \<le> length (argv ?E)"
    by (simp_all add: main_defs ex_env_def)
  have jn: "os_path_join ''/zips'' MAIN_ZIP = ''/zips/settlers4-assets.zip''"
    by (simp add: main_defs)
  have h1: "os_path_isdir [''proj''] ex_disk ''/zips''"
    by (simp add: main_defs fs_defs resolve_def ex_disk_def)
  have h2: "os_path_isfile [''proj''] ex_disk ''/zips/settlers4-assets.zip''"
    by (simp add: main_defs fs_defs resolve_def ex_disk_def)
  have h3: "\<not> os_path_isfile [''proj''] ?s1 (os_path_join ''/zips'' HD_ZIP)"
    by (simp add: main_defs fs_defs resolve_def ex_disk_def)
  have h4: "run_node ?E (SCRIPT_DIR ?E @ [''generate-file-list.js'']) ?s1
      = (Inr \<lparr>returncode = 0, stdout = ''Wrote file-list.txt'' @ [CHR 0x0A], stderr = []\<rparr>,
         ?s1([''proj'', ''public'', ''Siedler4'', ''file-list.txt''] \<mapsto> File ''Gfx/2.gh6''))"
    by (simp add: ex_env_def ex_node_def)
  let ?R = "\<lparr>returncode = 0, stdout = ''Wrote file-list.txt'' @ [CHR 0x0A], stderr = []\<rparr>"
  have h5: "run_node ?E (SCRIPT_DIR ?E @ [''generate-file-list.js'']) ?s1
      = (Inr ?R, ?s1([''proj'', ''public'', ''Siedler4'', ''file-list.txt''] \<mapsto> File ''Gfx/2.gh6''))
      \<and> returncode ?R = 0"
    using h4 by simp
  have pre: "2 \<le> length (argv ?E) \<and> os_path_isdir (cwd ?E) ex_disk (expanduser ?E (argv ?E ! 1))
        \<and> os_path_isfile (cwd ?E) ex_disk (os_path_join (expanduser ?E (argv ?E ! 1)) MAIN_ZIP)
        \<and> extract_zip ex_rd (read_denied ?E) (cwd ?E) (os_path_join (expanduser ?E (argv ?E ! 1)) MAIN_ZIP)
              (PUBLIC_DIR ?E) ex_disk = (Inr 2, ?s1)
        \<and> \<not> os_path_isfile (cwd ?E) ?s1 (os_path_join (expanduser ?E (argv ?E ! 1)) HD_ZIP)"
    unfolding ex(1-4) jn using ex(5) h1 h2 h3 ex_extract_disk by simp
  note X = c4 [OF usage_errors [where E = ?E and rd = ex_rd and s = ex_disk], rule_format, OF pre]
  from conjunct2 [OF X, rule_format, OF h5]
  have "fst (main ex_rd ?E ex_disk) = Returned" by simp
  with a a' b c show ?thesis by blast
qed

lemma takeWhile_name:
  assumes "CHR ''/'' \<notin> set name" and "tail = [] \<or> hd tail = CHR ''/''"
  shows "takeWhile (\<lambda>c. c \<noteq> CHR ''/'') (name @ tail) = name"
    and "dropWhile (\<lambda>c. c \<noteq> CHR ''/'') (name @ tail) = tail"
proof -
  have all: "\<forall>c\<in>set name. c \<noteq> CHR ''/''" using assms(1) by auto
  have t: "takeWhile (\<lambda>c. c \<noteq> CHR ''/'') tail = []"
    and d: "dropWhile (\<lambda>c. c \<noteq> CHR ''/'') tail = tail"
    using assms(2) by (cases tail; simp)+
  show "takeWhile (\<lambda>c. c \<noteq> CHR ''/'') (name @ tail) = name"
    using all t by (simp add: takeWhile_append2)
  show "dropWhile (\<lambda>c. c \<noteq> CHR ''/'') (name @ tail) = tail"
    using all d by (simp add: dropWhile_append2)
qed

lemma main_finish_argv: "main_finish (E\<lparr>argv := a\<rparr>) out s = main_finish E out s"
  by (simp add: main_finish_def SIEDLER_DIR_def PUBLIC_DIR_def SCRIPT_DIR_def Let_def
      split: prod.splits sum.splits)

lemma main_hd_argv: "main_hd rd (E\<lparr>argv := a\<rparr>) hd_zip out s = main_hd rd E hd_zip out s"
  by (simp add: main_hd_def main_finish_argv SIEDLER_DIR_def PUBLIC_DIR_def Let_def
      split: prod.splits sum.splits)

lemma main_dir_argv:
  "main_dir rd (E\<lparr>argv := a\<rparr>) src s = main_dir rd E src s"
  by (simp add: main_dir_def main_hd_argv PUBLIC_DIR_def Let_def
      split: prod.splits sum.splits)

lemma expanduser_argv: "expanduser (E\<lparr>argv := a\<rparr>) p = expanduser E p"
  by (simp add: expanduser_def Let_def split: list.splits option.splits)

text \<open>
  C10, as amended. \<^verbatim>\<open>main\<close> expands its argument with \<^verbatim>\<open>expanduser\<close> before any
  check, and every later lookup is under the expanded path. An argument \<^verbatim>\<open>~\<close> or
  \<^verbatim>\<open>~/...\<close> is read from the home directory when \<^verbatim>\<open>HOME\<close> is set or the password
  database knows the user; an argument \<^verbatim>\<open>~name...\<close> is read from the home of
  \<^verbatim>\<open>name\<close> when the database knows it; otherwise the argument is left as it is.
\<close>

theorem home_expansion:
  "(2 \<le> length (argv E) \<longrightarrow> main rd E s = main_dir rd E (expanduser E (argv E ! 1)) s)
   \<and> (\<forall>prog a b. expanduser E a = expanduser E b \<longrightarrow>
         main rd (E\<lparr>argv := [prog, a]\<rparr>) s = main rd (E\<lparr>argv := [prog, b]\<rparr>) s)
   \<and> (\<forall>tail h. (tail = [] \<or> hd tail = CHR ''/'')
         \<and> (environ_HOME E = Some h \<or> environ_HOME E = None \<and> pw_uid_dir E = Some h) \<longrightarrow>
         expanduser E (CHR ''~'' # tail)
           = (if rstrip_sep h @ tail = [] then ''/'' else rstrip_sep h @ tail))
   \<and> (\<forall>name tail h. name \<noteq> [] \<and> CHR ''/'' \<notin> set name \<and> (tail = [] \<or> hd tail = CHR ''/'')
         \<and> pw_nam_dir E name = Some h \<longrightarrow>
         expanduser E (CHR ''~'' # name @ tail)
           = (if rstrip_sep h @ tail = [] then ''/'' else rstrip_sep h @ tail))
   \<and> (\<forall>tail. (tail = [] \<or> hd tail = CHR ''/'')
         \<and> environ_HOME E = None \<and> pw_uid_dir E = None \<longrightarrow>
         expanduser E (CHR ''~'' # tail) = CHR ''~'' # tail)
   \<and> (\<forall>name tail. name \<noteq> [] \<and> CHR ''/'' \<notin> set name \<and> (tail = [] \<or> hd tail = CHR ''/'')
         \<and> pw_nam_dir E name = None \<longrightarrow>
         expanduser E (CHR ''~'' # name @ tail) = CHR ''~'' # name @ tail)
   \<and> (\<forall>p. p = [] \<or> hd p \<noteq> CHR ''~'' \<longrightarrow> expanduser E p = p)"
proof (intro conjI allI impI)
  assume "2 \<le> length (argv E)"
  then show "main rd E s = main_dir rd E (expanduser E (argv E ! 1)) s"
    by (simp add: main_def)
next
  fix prog a b assume "expanduser E a = expanduser E b"
  then show "main rd (E\<lparr>argv := [prog, a]\<rparr>) s = main rd (E\<lparr>argv := [prog, b]\<rparr>) s"
    by (simp add: main_def main_dir_argv expanduser_argv)
next
  fix tail h
  assume a: "(tail = [] \<or> hd tail = CHR ''/'')
         \<and> (environ_HOME E = Some h \<or> environ_HOME E = None \<and> pw_uid_dir E = Some h)"
  from takeWhile_name [of "[]" tail] a
  have "takeWhile (\<lambda>c. c \<noteq> CHR ''/'') tail = []" "dropWhile (\<lambda>c. c \<noteq> CHR ''/'') tail = tail"
    by simp_all
  with a show "expanduser E (CHR ''~'' # tail)
           = (if rstrip_sep h @ tail = [] then ''/'' else rstrip_sep h @ tail)"
    by (auto simp: expanduser_def Let_def)
next
  fix name tail h
  assume a: "name \<noteq> [] \<and> CHR ''/'' \<notin> set name \<and> (tail = [] \<or> hd tail = CHR ''/'')
         \<and> pw_nam_dir E name = Some h"
  with takeWhile_name [of name tail]
  show "expanduser E (CHR ''~'' # name @ tail)
           = (if rstrip_sep h @ tail = [] then ''/'' else rstrip_sep h @ tail)"
    by (simp add: expanduser_def Let_def)
next
  fix tail
  assume a: "(tail = [] \<or> hd tail = CHR ''/'')
         \<and> environ_HOME E = None \<and> pw_uid_dir E = None"
  from takeWhile_name [of "[]" tail] a
  have "takeWhile (\<lambda>c. c \<noteq> CHR ''/'') tail = []" by simp
  with a show "expanduser E (CHR ''~'' # tail) = CHR ''~'' # tail"
    by (simp add: expanduser_def Let_def)
next
  fix name tail
  assume a: "name \<noteq> [] \<and> CHR ''/'' \<notin> set name \<and> (tail = [] \<or> hd tail = CHR ''/'')
         \<and> pw_nam_dir E name = None"
  with takeWhile_name [of name tail]
  show "expanduser E (CHR ''~'' # name @ tail) = CHR ''~'' # name @ tail"
    by (simp add: expanduser_def Let_def)
next
  fix p :: string assume "p = [] \<or> hd p \<noteq> CHR ''~''"
  then show "expanduser E p = p"
    by (cases p) (auto simp: expanduser_def)
qed

lemmas run_defs = main_defs fs_defs zip_defs ex_env_def ex_disk_def ex_rd_def ex_node_def
  makedirs.simps show_nat.simps

theorem home_expansion_witness:
  "expanduser (ex_env [''~''] (Some ''/home/u/'')) ''~'' = ''/home/u''
   \<and> expanduser (ex_env [''~/zips''] (Some ''/'')) ''~/zips'' = ''/zips''
   \<and> expanduser (ex_env [''~bob''] (Some ''/home/u'')) ''~bob'' = ''/home/bob''
   \<and> expanduser (ex_env [''/zips''] (Some ''/home/u'')) ''/zips'' = ''/zips''
   \<and> main ex_rd (ex_env [''~''] (Some ''/home/u/'')) ex_disk
       = main_dir ex_rd (ex_env [''~''] (Some ''/home/u/'')) ''/home/u'' ex_disk
   \<and> fst (snd (main ex_rd (ex_env [''~''] (Some ''/home/u/'')) ex_disk))
       = [''Extracting settlers4-assets.zip -> public/Siedler4/'',
          ''  0 entries extracted'',
          [CHR 0x0A] @ ''  [!!] Gfx/2.gh6 missing - map rendering will fail'', [],
          ''Generating file-list.txt...'', ''  Wrote file-list.txt'', [CHR 0x0A] @ ''Done!'']"
proof -
  note c1 = conjunct1
  note c3 = conjunct1 [OF conjunct2 [OF conjunct2]]
  note c4 = conjunct1 [OF conjunct2 [OF conjunct2 [OF conjunct2]]]
  note c7 = conjunct2 [OF conjunct2 [OF conjunct2 [OF conjunct2 [OF conjunct2 [OF conjunct2]]]]]
  let ?E = "ex_env [''~''] (Some ''/home/u/'')"
  have a: "expanduser ?E ''~'' = ''/home/u''"
    using c3 [OF home_expansion [where E = ?E], rule_format, of "[]" "''/home/u/''"]
    by (simp add: ex_env_def rstrip_sep_def)
  have b: "expanduser (ex_env [''~/zips''] (Some ''/'')) ''~/zips'' = ''/zips''"
    using c3 [OF home_expansion [where E = "ex_env [''~/zips''] (Some ''/'')"], rule_format,
        of "''/zips''" "''/''"]
    by (simp add: ex_env_def rstrip_sep_def)
  have c: "expanduser (ex_env [''~bob''] (Some ''/home/u'')) ''~bob'' = ''/home/bob''"
    using c4 [OF home_expansion [where E = "ex_env [''~bob''] (Some ''/home/u'')"], rule_format,
        of "''bob''" "[]" "''/home/bob''"]
    by (simp add: ex_env_def rstrip_sep_def)
  have d: "expanduser (ex_env [''/zips''] (Some ''/home/u'')) ''/zips'' = ''/zips''"
    using c7 [OF home_expansion [where E = "ex_env [''/zips''] (Some ''/home/u'')"], rule_format,
        of "''/zips''"]
    by simp
  have "main ex_rd ?E ex_disk = main_dir ex_rd ?E (expanduser ?E (argv ?E ! 1)) ex_disk"
    using c1 [OF home_expansion [where E = ?E and rd = ex_rd and s = ex_disk]]
    by (simp add: ex_env_def)
  moreover have "argv ?E ! 1 = ''~''" by (simp add: ex_env_def)
  ultimately have e: "main ex_rd ?E ex_disk = main_dir ex_rd ?E ''/home/u'' ex_disk"
    using a by simp
  have f: "fst (snd (main_dir ex_rd ?E ''/home/u'' ex_disk))
       = [''Extracting settlers4-assets.zip -> public/Siedler4/'',
          ''  0 entries extracted'',
          [CHR 0x0A] @ ''  [!!] Gfx/2.gh6 missing - map rendering will fail'', [],
          ''Generating file-list.txt...'', ''  Wrote file-list.txt'', [CHR 0x0A] @ ''Done!'']"
    by (simp add: run_defs)
  from a b c d e f show ?thesis by simp
qed

text \<open>
  C10, as stated, fails: with \<^verbatim>\<open>HOME\<close> unset and no entry for the user, the
  argument \<^verbatim>\<open>~/zips\<close> is left as it is and the archive is read from the
  directory \<^verbatim>\<open>~\<close> of the working directory; and \<^verbatim>\<open>~bob/zips\<close> is read from the
  home of \<^verbatim>\<open>bob\<close>, not from that of the invoking user.
\<close>

theorem tilde_left_literal:
  "expanduser (ex_env [''~''] None) ''~'' = ''~''
   \<and> os_path_isdir [''proj''] ex_disk ''~''
   \<and> fst (snd (main ex_rd (ex_env [''~''] None) ex_disk))
       = [''Extracting settlers4-assets.zip -> public/Siedler4/'',
          ''  2 entries extracted'',
          [CHR 0x0A] @ ''  [!!] Gfx/2.gh6 missing - map rendering will fail'', [],
          ''Generating file-list.txt...'', ''  Wrote file-list.txt'', [CHR 0x0A] @ ''Done!'']
   \<and> expanduser (ex_env [''~bob''] (Some ''/home/u'')) ''~bob'' = ''/home/bob''
   \<and> fst (snd (main ex_rd (ex_env [''~bob''] (Some ''/home/u'')) ex_disk))
       = [''Extracting settlers4-assets.zip -> public/Siedler4/'',
          ''  1 entries extracted'',
          [CHR 0x0A] @ ''  [!!] Gfx/2.gh6 missing - map rendering will fail'', [],
          ''Generating file-list.txt...'', ''  Wrote file-list.txt'', [CHR 0x0A] @ ''Done!'']"
proof -
  have a: "expanduser (ex_env [''~''] None) ''~'' = ''~''"
    by (simp add: expanduser_def ex_env_def)
  have b: "os_path_isdir [''proj''] ex_disk ''~''"
    by (simp add: main_defs fs_defs resolve_def ex_disk_def)
  have c: "fst (snd (main ex_rd (ex_env [''~''] None) ex_disk))
       = [''Extracting settlers4-assets.zip -> public/Siedler4/'',
          ''  2 entries extracted'',
          [CHR 0x0A] @ ''  [!!] Gfx/2.gh6 missing - map rendering will fail'', [],
          ''Generating file-list.txt...'', ''  Wrote file-list.txt'', [CHR 0x0A] @ ''Done!'']"
    by (simp add: run_defs)
  have d: "expanduser (ex_env [''~bob''] (Some ''/home/u'')) ''~bob'' = ''/home/bob''"
    by (simp add: expanduser_def ex_env_def rstrip_sep_def)
  have e: "fst (snd (main ex_rd (ex_env [''~bob''] (Some ''/home/u'')) ex_disk))
       = [''Extracting settlers4-assets.zip -> public/Siedler4/'',
          ''  1 entries extracted'',
          [CHR 0x0A] @ ''  [!!] Gfx/2.gh6 missing - map rendering will fail'', [],
          ''Generating file-list.txt...'', ''  Wrote file-list.txt'', [CHR 0x0A] @ ''Done!'']"
    by (simp add: run_defs)
  from a b c d e show ?thesis by blast
qed

end
